theory Spec2Isabelle
  imports Complex_Main "HOL-Library.Multiset" "HOL-Library.Char_ord" "HOL-Library.List_Lexorder"
begin

section \<open>Spatial imputation of station observations\<close>

text \<open>
  The development follows \<^verbatim>\<open>preprocess_and_impute_with_cache.py\<close>. Floating-point
  numbers are modelled as reals (exact arithmetic); a missing value (NaN) is \<open>None\<close>.
  Exceptions are values of a sum type, \<open>Inl\<close> carrying the error. Where a result
  depends on the rounding of the double arithmetic (the station distances) or on the
  steps of a library algorithm (the order \<^verbatim>\<open>list.sort\<close> gives to keys with a NaN), the
  function takes what the code computes there as a parameter, and the properties are
  proved for every value of it.
\<close>

subsection \<open>Constants and errors\<close>

datatype error = ValueError | KeyError | JSONDecodeError | AttributeError | TypeError

definition MIN_NEIGHBORS :: nat where
  "MIN_NEIGHBORS = 3"

definition IDW_POWER :: nat where
  "IDW_POWER = 2"

subsection \<open>A time slice: a data frame indexed by station\<close>

text \<open>
  A slice is the frame \<^verbatim>\<open>g.set_index('StationID')[feature_cols]\<close>: the column labels and,
  per row, the index label with one value per column. The index may hold a label twice.
\<close>

record frame =
  columns :: "string list"
  rows :: "(string \<times> real option list) list"

definition index :: "frame \<Rightarrow> string list" where
  "index grp = map fst (rows grp)"

fun col_pos :: "string list \<Rightarrow> string \<Rightarrow> nat option" where
  "col_pos [] c = None"
| "col_pos (x # xs) c = (if x = c then Some 0 else map_option Suc (col_pos xs c))"

text \<open>
  \<^verbatim>\<open>grp.at[station, col]\<close> read in a truth test (\<^verbatim>\<open>pd.isna\<close>, \<^verbatim>\<open>pd.notna\<close>): a label
  that occurs once gives the scalar; a label that occurs several times makes pandas fall
  back to \<^verbatim>\<open>.loc\<close> and return a Series, whose truth value raises ValueError; an absent
  label or column raises KeyError. A data frame has one value per column in every row;
  for a shorter row, which pandas cannot build, the model answers KeyError too.
\<close>

definition at_get :: "frame \<Rightarrow> string \<Rightarrow> string \<Rightarrow> error + real option" where
  "at_get grp station col =
     (case col_pos (columns grp) col of
        None \<Rightarrow> Inl KeyError
      | Some j \<Rightarrow>
          (case filter (\<lambda>r. fst r = station) (rows grp) of
             [] \<Rightarrow> Inl KeyError
           | [r] \<Rightarrow> (if j < length (snd r) then Inr (snd r ! j) else Inl KeyError)
           | _ \<Rightarrow> Inl ValueError))"

text \<open>
  \<^verbatim>\<open>grp.at[station, col] = v\<close>. The worker writes only a cell it has just read as a
  scalar, so the label is in the index once and the column exists; for a column that
  does not exist, where pandas would add one, the model answers KeyError.
\<close>

definition at_set :: "frame \<Rightarrow> string \<Rightarrow> string \<Rightarrow> real option \<Rightarrow> error + frame" where
  "at_set grp station col v =
     (case col_pos (columns grp) col of
        None \<Rightarrow> Inl KeyError
      | Some j \<Rightarrow>
          Inr (grp\<lparr>rows := map (\<lambda>r. if fst r = station then (fst r, (snd r)[j := v]) else r)
                              (rows grp)\<rparr>))"

subsection \<open>The neighbour map\<close>

text \<open>
  The dict \<^verbatim>\<open>neighbors\<close>: station to its list of \<^verbatim>\<open>{'station', 'distance_km'}\<close> entries,
  in insertion order. A distance is a float, \<open>None\<close> when it is NaN.
\<close>

type_synonym nbr = "string \<times> real option"
type_synonym neighbors = "(string \<times> nbr list) list"

definition nbr_get :: "neighbors \<Rightarrow> string \<Rightarrow> nbr list" where
  "nbr_get neighbors station = (case map_of neighbors station of None \<Rightarrow> [] | Some l \<Rightarrow> l)"

subsection \<open>The slice imputation worker\<close>

text \<open>The loop over \<^verbatim>\<open>neighbors.get(station, [])\<close> that collects \<^verbatim>\<open>avail\<close>.\<close>

fun scan :: "frame \<Rightarrow> string \<Rightarrow> nbr list \<Rightarrow> nbr list \<Rightarrow> error + nbr list" where
  "scan grp col [] avail = Inr avail"
| "scan grp col (n # ns) avail =
     (if fst n \<notin> set (index grp) then scan grp col ns avail
      else
        (case at_get grp (fst n) col of
           Inl e \<Rightarrow> Inl e
         | Inr val \<Rightarrow>
             (let avail' = (if val \<noteq> None then avail @ [(fst n, snd n)] else avail)
              in if length avail' \<ge> MIN_NEIGHBORS then Inr avail'
                 else scan grp col ns avail')))"

text \<open>\<^verbatim>\<open>vals = [grp.at[s, col] for s,_ in avail]\<close>\<close>

fun at_all :: "frame \<Rightarrow> string \<Rightarrow> nbr list \<Rightarrow> error + real option list" where
  "at_all grp col [] = Inr []"
| "at_all grp col (a # as) =
     (case at_get grp (fst a) col of
        Inl e \<Rightarrow> Inl e
      | Inr v \<Rightarrow> (case at_all grp col as of Inl e \<Rightarrow> Inl e | Inr vs \<Rightarrow> Inr (v # vs)))"

text \<open>\<^verbatim>\<open>1/(d**IDW_POWER) if d>0 else 0\<close>; for a NaN the test \<^verbatim>\<open>d>0\<close> is false.\<close>

definition weight :: "real option \<Rightarrow> real" where
  "weight d = (case d of None \<Rightarrow> 0 | Some x \<Rightarrow> if x > 0 then 1 / x ^ IDW_POWER else 0)"

text \<open>
  Float arithmetic with NaN as \<open>None\<close>: a NaN operand gives NaN, and \<open>0.0 / 0\<close> is NaN
  (numpy warns and returns it). A quotient with a zero divisor and a nonzero dividend
  would be infinite; the worker never forms one, since its weights are non-negative and
  a zero sum of weights makes every product zero (lemma \<open>wsum_zero_numerator\<close>).
\<close>

fun fmul :: "real option \<Rightarrow> real \<Rightarrow> real option" where
  "fmul None w = None"
| "fmul (Some v) w = Some (v * w)"

fun fadd :: "real option \<Rightarrow> real option \<Rightarrow> real option" where
  "fadd (Some a) (Some b) = Some (a + b)"
| "fadd _ _ = None"

definition fsum :: "real option list \<Rightarrow> real option" where
  "fsum xs = foldl fadd (Some 0) xs"

fun fdiv :: "real option \<Rightarrow> real \<Rightarrow> real option" where
  "fdiv None b = None"
| "fdiv (Some a) b = (if b = 0 then None else Some (a / b))"

text \<open>\<^verbatim>\<open>sum(v*wi for v,wi in zip(vals, w)) / sum(w)\<close>\<close>

definition idw :: "real option list \<Rightarrow> real option list \<Rightarrow> real option" where
  "idw vals dists =
     (let w = map weight dists
      in fdiv (fsum (map (\<lambda>(v, wi). fmul v wi) (zip vals w))) (sum_list w))"

text \<open>
  A log line \<^verbatim>\<open>[t][proc] station/col nbr<3\<close>. The log is a file opened in append mode,
  so the lines written before an exception stay: an error carries the log with it.
\<close>

type_synonym 't log_entry = "'t \<times> string \<times> string \<times> string"

text \<open>The body of the two loops for one cell \<open>(station, col)\<close>.\<close>

definition impute_cell ::
  "'t \<Rightarrow> string \<Rightarrow> neighbors \<Rightarrow> frame \<times> 't log_entry list \<Rightarrow> string \<times> string
    \<Rightarrow> (error \<times> 't log_entry list) + (frame \<times> 't log_entry list)" where
  "impute_cell t proc neighbors st cell =
     (let grp = fst st; log = snd st; station = fst cell; col = snd cell in
      case at_get grp station col of
        Inl e \<Rightarrow> Inl (e, log)
      | Inr v \<Rightarrow>
          if v \<noteq> None then Inr (grp, log)
          else
            (case scan grp col (nbr_get neighbors station) [] of
               Inl e \<Rightarrow> Inl (e, log)
             | Inr avail \<Rightarrow>
                 if length avail < MIN_NEIGHBORS
                 then Inr (grp, log @ [(t, proc, station, col)])
                 else
                   (case at_all grp col avail of
                      Inl e \<Rightarrow> Inl (e, log)
                    | Inr vals \<Rightarrow>
                        (case at_set grp station col (idw vals (map snd avail)) of
                           Inl e \<Rightarrow> Inl (e, log)
                         | Inr grp' \<Rightarrow> Inr (grp', log)))))"

fun run_cells ::
  "'t \<Rightarrow> string \<Rightarrow> neighbors \<Rightarrow> frame \<times> 't log_entry list \<Rightarrow> (string \<times> string) list
    \<Rightarrow> (error \<times> 't log_entry list) + (frame \<times> 't log_entry list)" where
  "run_cells t proc neighbors st [] = Inr st"
| "run_cells t proc neighbors st (c # cs) =
     (case impute_cell t proc neighbors st c of
        Inl e \<Rightarrow> Inl e
      | Inr st' \<Rightarrow> run_cells t proc neighbors st' cs)"

text \<open>\<^verbatim>\<open>for station in grp.index: for col in grp.columns\<close>\<close>

definition cells_of :: "frame \<Rightarrow> (string \<times> string) list" where
  "cells_of grp = concat (map (\<lambda>station. map (\<lambda>col. (station, col)) (columns grp)) (index grp))"

text \<open>
  \<^verbatim>\<open>impute_slice((t, grp, neighbors))\<close>: works on a copy of the slice and returns it, with
  the lines it appended to the log.
\<close>

definition impute_slice ::
  "'t \<Rightarrow> string \<Rightarrow> frame \<Rightarrow> neighbors \<Rightarrow> (error \<times> 't log_entry list) + (frame \<times> 't log_entry list)" where
  "impute_slice t proc grp neighbors = run_cells t proc neighbors (grp, []) (cells_of grp)"

text \<open>A well-formed slice: no index label twice, one value per column in every row.\<close>

definition wf_frame :: "frame \<Rightarrow> bool" where
  "wf_frame grp \<longleftrightarrow>
     distinct (index grp) \<and> (\<forall>r \<in> set (rows grp). length (snd r) = length (columns grp))"

text \<open>
  A neighbour entry that counts as a candidate: its station has a row in the slice and
  its value for the feature is not missing.
\<close>

definition eligible :: "frame \<Rightarrow> string \<Rightarrow> nbr \<Rightarrow> bool" where
  "eligible grp col n \<longleftrightarrow> fst n \<in> set (index grp) \<and> (\<exists>v. at_get grp (fst n) col = Inr (Some v))"

subsection \<open>Example slices\<close>

definition ex_frame :: frame where
  "ex_frame = \<lparr>columns = [''T''],
     rows = [(''M'', [None]), (''A'', [Some 4]), (''B'', [Some 8]), (''C'', [Some 12])]\<rparr>"

definition ex_neighbors :: neighbors where
  "ex_neighbors = [(''M'', [(''A'', Some 1), (''B'', Some 2), (''C'', Some 2)])]"

definition ex_frame_filled :: frame where
  "ex_frame_filled = \<lparr>columns = [''T''],
     rows = [(''M'', [Some 6]), (''A'', [Some 4]), (''B'', [Some 8]), (''C'', [Some 12])]\<rparr>"

text \<open>
  Four co-located stations: \<open>M\<close> has no reading, its three neighbours are at distance 0
  (identical coordinates, or closer than the 4 decimals kept in the cache).
\<close>

definition degenerate_slice :: frame where
  "degenerate_slice = \<lparr>columns = [''T''],
     rows = [(''M'', [None]), (''A'', [Some 5]), (''B'', [Some 7]), (''C'', [Some 9])]\<rparr>"

definition degenerate_neighbors :: neighbors where
  "degenerate_neighbors =
     [(''M'', [(''A'', Some 0), (''B'', Some 0), (''C'', Some 0)]),
      (''A'', [(''M'', Some 0), (''B'', Some 0), (''C'', Some 0)]),
      (''B'', [(''M'', Some 0), (''A'', Some 0), (''C'', Some 0)]),
      (''C'', [(''M'', Some 0), (''A'', Some 0), (''B'', Some 0)])]"

definition twin_slice :: frame where
  "twin_slice = \<lparr>columns = [''P'', ''T''],
     rows = [(''X'', [Some 1000, None]), (''U'', [Some 1001, Some 20]),
             (''V'', [Some 1002, Some 22]), (''W'', [Some 1003, Some 24])]\<rparr>"

definition twin_neighbors :: neighbors where
  "twin_neighbors = [(''X'', [(''U'', Some 0), (''V'', Some 0), (''W'', Some 0)])]"

text \<open>
  Five stations on a line at kilometres 0 (\<open>M2\<close>), 1 (\<open>M1\<close>), 3 (\<open>A\<close>), 4 (\<open>B\<close>) and
  5 (\<open>C\<close>); \<open>M1\<close> and \<open>M2\<close> have no reading. The two slices hold the same rows, with
  \<open>M1\<close> and \<open>M2\<close> in the two possible orders.
\<close>

definition line_slice :: frame where
  "line_slice = \<lparr>columns = [''T''],
     rows = [(''M1'', [None]), (''M2'', [None]),
             (''A'', [Some 4]), (''B'', [Some 8]), (''C'', [Some 12])]\<rparr>"

definition line_slice_swapped :: frame where
  "line_slice_swapped = \<lparr>columns = [''T''],
     rows = [(''M2'', [None]), (''M1'', [None]),
             (''A'', [Some 4]), (''B'', [Some 8]), (''C'', [Some 12])]\<rparr>"

definition line_neighbors :: neighbors where
  "line_neighbors =
     [(''M1'', [(''M2'', Some 1), (''A'', Some 2), (''B'', Some 3), (''C'', Some 4)]),
      (''M2'', [(''M1'', Some 1), (''A'', Some 3), (''B'', Some 4), (''C'', Some 5)]),
      (''A'', [(''B'', Some 1), (''M1'', Some 2), (''C'', Some 2), (''M2'', Some 3)]),
      (''B'', [(''A'', Some 1), (''C'', Some 1), (''M1'', Some 3), (''M2'', Some 4)]),
      (''C'', [(''B'', Some 1), (''A'', Some 2), (''M1'', Some 4), (''M2'', Some 5)])]"

text \<open>The slice after the worker has filled \<open>M1\<close> and before it reaches \<open>M2\<close>.\<close>

definition line_slice_after_M1 :: frame where
  "line_slice_after_M1 = \<lparr>columns = [''T''],
     rows = [(''M1'', [Some (380 / 61)]), (''M2'', [None]),
             (''A'', [Some 4]), (''B'', [Some 8]), (''C'', [Some 12])]\<rparr>"

text \<open>
  Stations \<open>A\<close>, \<open>B\<close>, \<open>M1\<close>, \<open>M2\<close> at one place and \<open>C\<close> one kilometre away; the
  neighbour lists are complete and the distances symmetric.
\<close>

definition colocated_slice :: frame where
  "colocated_slice = \<lparr>columns = [''T''],
     rows = [(''M1'', [None]), (''M2'', [None]),
             (''A'', [Some 4]), (''B'', [Some 8]), (''C'', [Some 12])]\<rparr>"

definition colocated_slice_swapped :: frame where
  "colocated_slice_swapped = \<lparr>columns = [''T''],
     rows = [(''M2'', [None]), (''M1'', [None]),
             (''A'', [Some 4]), (''B'', [Some 8]), (''C'', [Some 12])]\<rparr>"

definition colocated_neighbors :: neighbors where
  "colocated_neighbors =
     [(''A'', [(''B'', Some 0), (''M1'', Some 0), (''M2'', Some 0), (''C'', Some 1)]),
      (''B'', [(''A'', Some 0), (''M1'', Some 0), (''M2'', Some 0), (''C'', Some 1)]),
      (''C'', [(''A'', Some 1), (''B'', Some 1), (''M1'', Some 1), (''M2'', Some 1)]),
      (''M1'', [(''A'', Some 0), (''B'', Some 0), (''M2'', Some 0), (''C'', Some 1)]),
      (''M2'', [(''A'', Some 0), (''B'', Some 0), (''M1'', Some 0), (''C'', Some 1)])]"

subsection \<open>The station catalog\<close>

text \<open>
  \<^verbatim>\<open>station_list.json\<close>: \<^verbatim>\<open>meta['data']\<close> is a list of groups and each group's \<^verbatim>\<open>'item'\<close> a
  list of stations. An item without \<^verbatim>\<open>'stationID'\<close> has \<open>None\<close> for it. Longitude,
  latitude and altitude are finite numbers where the item has them; where it has not,
  \<^verbatim>\<open>item.get(..., np.nan)\<close> reads NaN, which is \<open>None\<close>.
\<close>

record item =
  stationID :: "string option"
  longitude :: "real option"
  latitude :: "real option"
  altitude :: "real option"

type_synonym catalog = "item list list"

record coords =
  lon :: "real option"
  lat :: "real option"
  alt :: "real option"

text \<open>
  A Python dict keeps its keys in insertion order, and an assignment to a key that is
  already there keeps the key's place: an association list, updated in place.
\<close>

type_synonym station_info = "(string \<times> coords) list"

fun dict_set :: "('k \<times> 'v) list \<Rightarrow> 'k \<Rightarrow> 'v \<Rightarrow> ('k \<times> 'v) list" where
  "dict_set [] k v = [(k, v)]"
| "dict_set (p # ps) k v = (if fst p = k then (k, v) # ps else p # dict_set ps k v)"

text \<open>A row of \<^verbatim>\<open>station_meta_df\<close>: StationID, Longitude, Latitude, Altitude.\<close>

type_synonym meta_row = "string \<times> real option \<times> real option \<times> real option"

text \<open>The body of the two loops of \<^verbatim>\<open>load_station_info\<close> for one item.\<close>

definition add_item ::
  "string set \<Rightarrow> station_info \<times> meta_row list \<Rightarrow> item \<Rightarrow> station_info \<times> meta_row list" where
  "add_item valid_stations acc it =
     (case stationID it of
        None \<Rightarrow> acc
      | Some sid \<Rightarrow>
          if sid \<in> valid_stations
          then (dict_set (fst acc) sid \<lparr>lon = longitude it, lat = latitude it, alt = altitude it\<rparr>,
                snd acc @ [(sid, longitude it, latitude it, altitude it)])
          else acc)"

definition load_station_info :: "string set \<Rightarrow> catalog \<Rightarrow> station_info \<times> meta_row list" where
  "load_station_info valid_stations meta = foldl (add_item valid_stations) ([], []) (concat meta)"

text \<open>The station identifiers that occur in the catalog.\<close>

definition catalog_ids :: "catalog \<Rightarrow> string set" where
  "catalog_ids meta = {sid. Some sid \<in> stationID ` set (concat meta)}"

text \<open>
  The catalog entries of valid stations, each with its identifier, in the order of the
  catalog.
\<close>

definition valid_entries :: "string set \<Rightarrow> catalog \<Rightarrow> (string \<times> item) list" where
  "valid_entries valid_stations meta =
     List.map_filter
       (\<lambda>it. case stationID it of
                None \<Rightarrow> None
              | Some sid \<Rightarrow> if sid \<in> valid_stations then Some (sid, it) else None)
       (concat meta)"

text \<open>The elements of a list in the order in which they first occur.\<close>

fun first_seen :: "'a list \<Rightarrow> 'a list" where
  "first_seen [] = []"
| "first_seen (x # xs) = x # filter (\<lambda>y. y \<noteq> x) (first_seen xs)"

subsection \<open>The neighbour graph builder\<close>

text \<open>
  Computations run one after the other, as in a loop or a comprehension: the values
  in order, or the exception of the first one that raises.
\<close>

fun collect_results :: "('e + 'a) list \<Rightarrow> 'e + 'a list" where
  "collect_results [] = Inr []"
| "collect_results (r # rs) =
     (case r of
        Inl e \<Rightarrow> Inl e
      | Inr x \<Rightarrow> (case collect_results rs of Inl e \<Rightarrow> Inl e | Inr xs \<Rightarrow> Inr (x # xs)))"

definition radians :: "real \<Rightarrow> real" where
  "radians x = x * pi / 180"

text \<open>
  \<^verbatim>\<open>distance_3d\<close> in exact arithmetic: the haversine distance on a sphere of radius
  6371 km, combined with the difference of altitudes in km, which counts as 0 when an
  altitude is NaN. A NaN longitude or latitude makes every later value NaN. In exact
  arithmetic the argument of \<^verbatim>\<open>asin\<close> lies in \<open>[0, 1]\<close>, so this function never raises.

  The code computes in double precision, and its result can differ from the exact one
  in the last digits; \<^verbatim>\<open>math.asin\<close> raises ValueError if rounding takes its argument
  above 1. The builder below therefore takes the distance function as its parameter
  \<open>dist3d\<close>: what is proved of the builder for every \<open>dist3d\<close> holds of the code's
  arithmetic. The exact function is used for the example catalogs, whose distances
  (0 and 1 km between stations on one vertical) the doubles compute exactly.
\<close>

definition distance_3d :: "coords \<Rightarrow> coords \<Rightarrow> error + real option" where
  "distance_3d i1 i2 =
     (case (lon i1, lat i1, lon i2, lat i2) of
        (Some x1, Some y1, Some x2, Some y2) \<Rightarrow>
          (let lon1 = radians x1; lat1 = radians y1; lon2 = radians x2; lat2 = radians y2;
               dxy = 2 * arcsin (sqrt ((sin ((lat2 - lat1) / 2))\<^sup>2
                                        + cos lat1 * cos lat2 * (sin ((lon2 - lon1) / 2))\<^sup>2)) * 6371;
               dz = (case alt i1 of
                       None \<Rightarrow> 0
                     | Some a1 \<Rightarrow> (case alt i2 of None \<Rightarrow> 0 | Some a2 \<Rightarrow> \<bar>a1 - a2\<bar> / 1000))
           in Inr (Some (sqrt (dxy\<^sup>2 + dz\<^sup>2))))
      | _ \<Rightarrow> Inr None)"

text \<open>
  Python's \<^verbatim>\<open>round(d, 4)\<close> rounds to the nearest multiple of \<open>1/10000\<close> and an exact tie
  to the even one; a NaN stays NaN.
\<close>

definition round_half_even :: "real \<Rightarrow> int" where
  "round_half_even x =
     (let f = \<lfloor>x\<rfloor>; r = x - of_int f
      in if r < 1 / 2 then f else if r > 1 / 2 then f + 1 else if even f then f else f + 1)"

definition round4 :: "real \<Rightarrow> real" where
  "round4 d = of_int (round_half_even (d * 10000)) / 10000"

definition round4_float :: "real option \<Rightarrow> real option" where
  "round4_float d = map_option round4 d"

text \<open>
  \<^verbatim>\<open>dists\<close> for one station: the other stations with their distances, in dict order.
  The loops run over the keys and look each key up, which gives the dict's items. The
  comprehension stops at the first distance that raises.
\<close>

definition dists_of ::
  "(coords \<Rightarrow> coords \<Rightarrow> error + real option) \<Rightarrow> station_info \<Rightarrow> string \<Rightarrow> coords
    \<Rightarrow> error + nbr list" where
  "dists_of dist3d station_info sid i1 =
     collect_results
       (map (\<lambda>p. case dist3d i1 (snd p) of Inl e \<Rightarrow> Inl e | Inr d \<Rightarrow> Inr (fst p, d))
            (filter (\<lambda>p. fst p \<noteq> sid) station_info))"

text \<open>
  \<^verbatim>\<open>dists.sort(key=lambda x: x[1])\<close>. On keys that are all numbers \<^verbatim>\<open>list.sort\<close> is the
  stable sort by the key, as \<open>sort_key\<close> is. A comparison with NaN is false either way,
  so on keys that include a NaN the comparisons are not an order: the list is still
  rearranged, but to an arrangement that depends on the steps of the sorting algorithm
  and need neither be sorted nor keep tied entries in their order. The model does not
  fix that arrangement: the parameter \<open>nan_rank\<close> gives each entry of such a list its
  place, and what is proved for every \<open>nan_rank\<close> holds whatever \<^verbatim>\<open>list.sort\<close> does there.
\<close>

type_synonym nan_order = "nbr list \<Rightarrow> nbr \<Rightarrow> nat"

definition sort_by_distance :: "nan_order \<Rightarrow> nbr list \<Rightarrow> nbr list" where
  "sort_by_distance nan_rank dists =
     (if None \<in> snd ` set dists then sort_key (nan_rank dists) dists
      else sort_key (\<lambda>x. case snd x of None \<Rightarrow> 0 | Some d \<Rightarrow> d) dists)"

text \<open>The body of the loop \<^verbatim>\<open>for sid in station_info\<close>: the entry of \<^verbatim>\<open>neighbors\<close> for one station.\<close>

definition neighbors_entry ::
  "(coords \<Rightarrow> coords \<Rightarrow> error + real option) \<Rightarrow> nan_order \<Rightarrow> station_info \<Rightarrow> string \<times> coords
    \<Rightarrow> error + (string \<times> nbr list)" where
  "neighbors_entry dist3d nan_rank station_info p =
     (case dists_of dist3d station_info (fst p) (snd p) of
        Inl e \<Rightarrow> Inl e
      | Inr dists \<Rightarrow>
          Inr (fst p, map (\<lambda>q. (fst q, round4_float (snd q))) (sort_by_distance nan_rank dists)))"

text \<open>
  \<^verbatim>\<open>compute_and_cache_neighbors\<close>, for the distance function \<open>dist3d\<close>. The keys of
  \<^verbatim>\<open>station_info\<close> are distinct, so each assignment \<^verbatim>\<open>neighbors[sid] = ...\<close> adds a key.
  The same map is written to the cache file and returned.
\<close>

definition compute_and_cache_neighbors ::
  "(coords \<Rightarrow> coords \<Rightarrow> error + real option) \<Rightarrow> nan_order \<Rightarrow> station_info \<Rightarrow> error + neighbors" where
  "compute_and_cache_neighbors dist3d nan_rank station_info =
     collect_results (map (neighbors_entry dist3d nan_rank station_info) station_info)"



text \<open>
  A station other than \<open>sid\<close> whose distance from the coordinates \<open>i1\<close>, as \<open>dist3d\<close>
  computes it from the station's coordinates in \<^verbatim>\<open>station_info\<close>, is \<open>k\<close>.
\<close>

definition at_distance ::
  "(coords \<Rightarrow> coords \<Rightarrow> error + real option) \<Rightarrow> station_info \<Rightarrow> string \<Rightarrow> coords \<Rightarrow> real
    \<Rightarrow> string \<Rightarrow> bool" where
  "at_distance dist3d station_info sid i1 k other \<longleftrightarrow>
     other \<noteq> sid
     \<and> (case map_of station_info other of
          None \<Rightarrow> False
        | Some i2 \<Rightarrow> dist3d i1 i2 = Inr (Some k))"

subsection \<open>Example catalogs\<close>

text \<open>
  Three stations on one vertical: \<open>S\<close> at sea level, \<open>Q\<close> and \<open>P\<close> both 1000 m above it.
  The catalog lists \<open>Q\<close> before \<open>P\<close>.
\<close>

definition tie_catalog :: catalog where
  "tie_catalog =
     [[\<lparr>stationID = Some ''S'', longitude = Some 0, latitude = Some 0, altitude = Some 0\<rparr>,
       \<lparr>stationID = Some ''Q'', longitude = Some 0, latitude = Some 0, altitude = Some 1000\<rparr>,
       \<lparr>stationID = Some ''P'', longitude = Some 0, latitude = Some 0, altitude = Some 1000\<rparr>]]"

definition tie_catalog_swapped :: catalog where
  "tie_catalog_swapped =
     [[\<lparr>stationID = Some ''S'', longitude = Some 0, latitude = Some 0, altitude = Some 0\<rparr>,
       \<lparr>stationID = Some ''P'', longitude = Some 0, latitude = Some 0, altitude = Some 1000\<rparr>,
       \<lparr>stationID = Some ''Q'', longitude = Some 0, latitude = Some 0, altitude = Some 1000\<rparr>]]"

text \<open>A catalog that has no entry for the valid station \<open>B\<close>.\<close>

definition partial_catalog :: catalog where
  "partial_catalog =
     [[\<lparr>stationID = Some ''A'', longitude = Some 121, latitude = Some 25, altitude = Some 10\<rparr>,
       \<lparr>stationID = Some ''Z'', longitude = Some 120, latitude = Some 24, altitude = None\<rparr>]]"


text \<open>
  The coordinates behind \<open>degenerate_neighbors\<close>: four stations with the same
  coordinates.
\<close>

definition degenerate_info :: station_info where
  "degenerate_info =
     [(''M'', \<lparr>lon = Some 121, lat = Some 25, alt = Some 10\<rparr>),
      (''A'', \<lparr>lon = Some 121, lat = Some 25, alt = Some 10\<rparr>),
      (''B'', \<lparr>lon = Some 121, lat = Some 25, alt = Some 10\<rparr>),
      (''C'', \<lparr>lon = Some 121, lat = Some 25, alt = Some 10\<rparr>)]"

text \<open>
  The coordinates behind \<open>colocated_neighbors\<close>: four stations at one place at sea level
  and \<open>C\<close> 1000 m above them.
\<close>

definition colocated_info :: station_info where
  "colocated_info =
     [(''A'', \<lparr>lon = Some 0, lat = Some 0, alt = Some 0\<rparr>),
      (''B'', \<lparr>lon = Some 0, lat = Some 0, alt = Some 0\<rparr>),
      (''C'', \<lparr>lon = Some 0, lat = Some 0, alt = Some 1000\<rparr>),
      (''M1'', \<lparr>lon = Some 0, lat = Some 0, alt = Some 0\<rparr>),
      (''M2'', \<lparr>lon = Some 0, lat = Some 0, alt = Some 0\<rparr>)]"

subsection \<open>The controller and the result assembler\<close>

text \<open>
  The flattened table \<^verbatim>\<open>df0\<close>: per row the StationID, the DataTime (\<open>None\<close> when the
  entry has none) and one value per feature column. \<^verbatim>\<open>pd.DataFrame([])\<close> has no columns
  at all.
\<close>

type_synonym flat_row = "string \<times> string option \<times> real option list"

record flat_table =
  feature_cols :: "string list"
  records :: "flat_row list"

text \<open>
  \<^verbatim>\<open>df0.groupby('DataTime')\<close>: one group per timestamp, the timestamps in ascending order,
  the rows of a group in the order of the table; rows without a timestamp are in no group.
\<close>

definition groupby_DataTime :: "flat_row list \<Rightarrow> (string \<times> flat_row list) list" where
  "groupby_DataTime recs =
     map (\<lambda>t. (t, filter (\<lambda>r. fst (snd r) = Some t) recs))
         (sort (remdups (List.map_filter (\<lambda>r. fst (snd r)) recs)))"

text \<open>\<^verbatim>\<open>g.set_index('StationID')[feature_cols]\<close>\<close>

definition slice_of :: "string list \<Rightarrow> flat_row list \<Rightarrow> frame" where
  "slice_of cols g = \<lparr>columns = cols, rows = map (\<lambda>r. (fst r, snd (snd r))) g\<rparr>"

text \<open>
  One worker call as the controller sees it: the exception or the returned frame.
  \<open>proc_of\<close> names the pool process that happens to run the slice of a timestamp.
\<close>

definition worker_result :: "(string \<Rightarrow> string) \<Rightarrow> neighbors \<Rightarrow> string \<times> frame \<Rightarrow> error + frame" where
  "worker_result proc_of neighbors g =
     (case impute_slice (fst g) (proc_of (fst g)) (snd g) neighbors of
        Inl el \<Rightarrow> Inl (fst el)
      | Inr fl \<Rightarrow> Inr (fst fl))"

text \<open>
  \<^verbatim>\<open>list(exe.map(impute_slice, groups))\<close>: the results come back in the order of the
  groups, and the first group whose worker raised makes the iteration raise its exception.
\<close>

definition run_pool :: "(string \<Rightarrow> string) \<Rightarrow> neighbors \<Rightarrow> (string \<times> frame) list \<Rightarrow> error + frame list" where
  "run_pool proc_of neighbors groups = collect_results (map (worker_result proc_of neighbors) groups)"

text \<open>
  A row of the final table: StationID, the feature values, DataTime, and the Longitude,
  Latitude and Altitude joined in (all missing for a station without metadata).
\<close>

type_synonym out_row = "string \<times> real option list \<times> string \<times> real option \<times> real option \<times> real option"

text \<open>\<^verbatim>\<open>g.assign(DataTime=t)\<close> on \<^verbatim>\<open>grp.reset_index()\<close>\<close>

definition assign_DataTime :: "string \<Rightarrow> frame \<Rightarrow> (string \<times> real option list \<times> string) list" where
  "assign_DataTime t g = map (\<lambda>row. (fst row, snd row, t)) (rows g)"

text \<open>
  \<^verbatim>\<open>imputed.merge(station_meta_df, on='StationID', how='left')\<close>: every left row, in
  order, once per matching metadata row, or once with missing metadata when none
  matches. A metadata frame built from an empty list has no StationID column, and the
  merge raises KeyError.
\<close>

definition merge_row :: "meta_row list \<Rightarrow> string \<times> real option list \<times> string \<Rightarrow> out_row list" where
  "merge_row station_meta row =
     (case filter (\<lambda>m. fst m = fst row) station_meta of
        [] \<Rightarrow> [(fst row, fst (snd row), snd (snd row), None, None, None)]
      | ms \<Rightarrow> map (\<lambda>m. (fst row, fst (snd row), snd (snd row),
                        fst (snd m), fst (snd (snd m)), snd (snd (snd m)))) ms)"

definition merge_left ::
  "(string \<times> real option list \<times> string) list \<Rightarrow> meta_row list \<Rightarrow> error + out_row list" where
  "merge_left imputed station_meta =
     (if station_meta = [] then Inl KeyError
      else Inr (concat (map (merge_row station_meta) imputed)))"

text \<open>
  \<^verbatim>\<open>pd.concat\<close> of the results, each with its group's timestamp, then the merge.
  \<^verbatim>\<open>pd.concat([])\<close> raises ValueError.
\<close>

definition assemble :: "(string \<times> frame) list \<Rightarrow> frame list \<Rightarrow> meta_row list \<Rightarrow> error + out_row list" where
  "assemble groups results station_meta =
     (if results = [] then Inl ValueError
      else merge_left (concat (map (\<lambda>gr. assign_DataTime (fst (fst gr)) (snd gr)) (zip groups results)))
                      station_meta)"

text \<open>
  The part of \<^verbatim>\<open>main\<close> from the grouping of \<^verbatim>\<open>df0\<close> to the final table. Grouping a frame
  without columns raises KeyError. The value is the table written to the imputed CSV,
  or the exception that ends the run.
\<close>

definition slices_of :: "flat_table \<Rightarrow> (string \<times> frame) list" where
  "slices_of df0 =
     map (\<lambda>tg. (fst tg, slice_of (feature_cols df0) (snd tg))) (groupby_DataTime (records df0))"

definition main_impute ::
  "(string \<Rightarrow> string) \<Rightarrow> flat_table \<Rightarrow> meta_row list \<Rightarrow> neighbors \<Rightarrow> error + out_row list" where
  "main_impute proc_of df0 station_meta neighbors =
     (if records df0 = [] then Inl KeyError
      else
        (case run_pool proc_of neighbors (slices_of df0) of
           Inl e \<Rightarrow> Inl e
         | Inr results \<Rightarrow> assemble (slices_of df0) results station_meta))"

text \<open>
  \<^verbatim>\<open>main\<close> once \<^verbatim>\<open>flatten_and_clean\<close> has returned \<^verbatim>\<open>df0\<close>. An exception of the neighbour
  graph builder ends the run before the slices are formed.
\<close>

definition main_from ::
  "(coords \<Rightarrow> coords \<Rightarrow> error + real option) \<Rightarrow> nan_order \<Rightarrow> (string \<Rightarrow> string) \<Rightarrow> string set
    \<Rightarrow> flat_table \<Rightarrow> catalog \<Rightarrow> error + out_row list" where
  "main_from dist3d nan_rank proc_of valid_stations df0 meta =
     (let si = load_station_info valid_stations meta
      in case compute_and_cache_neighbors dist3d nan_rank (fst si) of
           Inl e \<Rightarrow> Inl e
         | Inr neighbors \<Rightarrow> main_impute proc_of df0 (snd si) neighbors)"

text \<open>The key of a row: its station and timestamp.\<close>

definition flat_key :: "flat_row \<Rightarrow> string \<times> string option" where
  "flat_key r = (fst r, fst (snd r))"

definition out_key :: "out_row \<Rightarrow> string \<times> string option" where
  "out_key r = (fst r, Some (fst (snd (snd r))))"

subsection \<open>Example tables\<close>

text \<open>A pool in which one process runs every slice.\<close>

definition single_worker :: "string \<Rightarrow> string" where
  "single_worker t = ''SpawnProcess-1''"

text \<open>One station, one feature, a catalog with a single entry for the station.\<close>

definition one_catalog :: catalog where
  "one_catalog = [[\<lparr>stationID = Some ''A'', longitude = Some 121, latitude = Some 25, altitude = Some 10\<rparr>]]"

text \<open>The second row has no DataTime.\<close>

definition null_time_table :: flat_table where
  "null_time_table = \<lparr>feature_cols = [''T''],
     records = [(''A'', Some ''2024-05-01T10:00:00'', [Some 20]), (''A'', None, [Some 21])]\<rparr>"

text \<open>The catalog lists station \<open>A\<close> in two groups.\<close>

definition twice_catalog :: catalog where
  "twice_catalog =
     [[\<lparr>stationID = Some ''A'', longitude = Some 121, latitude = Some 25, altitude = Some 10\<rparr>],
      [\<lparr>stationID = Some ''A'', longitude = Some 121, latitude = Some 25, altitude = Some 12\<rparr>]]"

definition one_row_table :: flat_table where
  "one_row_table = \<lparr>feature_cols = [''T''],
     records = [(''A'', Some ''2024-05-01T10:00:00'', [Some 20])]\<rparr>"

text \<open>
  Two timestamps; at the second one station \<open>A\<close> has two rows (the same hour in two of
  its files).
\<close>

definition repeated_row_table :: flat_table where
  "repeated_row_table = \<lparr>feature_cols = [''T''],
     records = [(''A'', Some ''2024-05-01T10:00:00'', [Some 20]),
                (''A'', Some ''2024-05-01T11:00:00'', [Some 21]),
                (''A'', Some ''2024-05-01T11:00:00'', [Some 21])]\<rparr>"

text \<open>Two stations at two timestamps, every pair once.\<close>

definition clean_table :: flat_table where
  "clean_table = \<lparr>feature_cols = [''T''],
     records = [(''A'', Some ''2024-05-01T10:00:00'', [Some 20]),
                (''B'', Some ''2024-05-01T10:00:00'', [None]),
                (''A'', Some ''2024-05-01T11:00:00'', [Some 21]),
                (''B'', Some ''2024-05-01T11:00:00'', [Some 19])]\<rparr>"

definition clean_meta :: "meta_row list" where
  "clean_meta = [(''A'', Some 121, Some 25, Some 10), (''B'', Some 120, Some 24, None)]"

definition clean_neighbors :: neighbors where
  "clean_neighbors = [(''A'', [(''B'', Some 150)]), (''B'', [(''A'', Some 150)])]"

subsection \<open>The record flattener\<close>

text \<open>
  A parsed JSON document. Python's \<^verbatim>\<open>None\<close> is \<open>JNull\<close>; an object is the dict that
  \<^verbatim>\<open>json.load\<close> builds, each key once.
\<close>

datatype json =
    JNull
  | JBool bool
  | JNum real
  | JStr string
  | JArr "json list"
  | JObj "(string \<times> json) list"

text \<open>A file of a station directory: \<^verbatim>\<open>json.load\<close> raises on one that is not JSON.\<close>

datatype raw_file = Unparseable | Parsed json

text \<open>
  The directories under \<^verbatim>\<open>HIS_ROOT\<close>: directory name to its listing, file name and
  content. A station without a directory is not in the map.
\<close>

type_synonym his_root = "(string \<times> (string \<times> raw_file) list) list"

text \<open>\<^verbatim>\<open>fields\<close>: the measurement groups with their sub-measurements.\<close>

definition fields :: "(string \<times> string list) list" where
  "fields =
     [(''StationPressure'', [''Instantaneous'']),
      (''SeaLevelPressure'', [''Instantaneous'']),
      (''AirTemperature'', [''Instantaneous'', ''Maximum'', ''Minimum'']),
      (''DewPointTemperature'', [''Instantaneous'']),
      (''RelativeHumidity'', [''Instantaneous'']),
      (''WindSpeed'', [''TenMinutelyMaximum'', ''Mean'']),
      (''WindDirection'', [''TenMinutelyMaximum'', ''Mean'']),
      (''PeakGust'', [''Direction'', ''Maximum'']),
      (''Precipitation'', [''Accumulation'']),
      (''PrecipitationDuration'', [''Total'']),
      (''SunshineDuration'', [''Total'']),
      (''GlobalSolarRadiation'', [''Accumulation'']),
      (''Visibility'', [''Instantaneous'']),
      (''UVIndex'', [''Accumulation'']),
      (''TotalCloudAmount'', [''Instantaneous'']),
      (''SoilTemperatureAt0cm'', [''Instantaneous'']),
      (''SoilTemperatureAt5cm'', [''Instantaneous'']),
      (''SoilTemperatureAt10cm'', [''Instantaneous'']),
      (''SoilTemperatureAt20cm'', [''Instantaneous'']),
      (''SoilTemperatureAt30cm'', [''Instantaneous'']),
      (''SoilTemperatureAt50cm'', [''Instantaneous'']),
      (''SoilTemperatureAt100cm'', [''Instantaneous''])]"

text \<open>The placeholder codes of the tuple in \<^verbatim>\<open>flatten_and_clean\<close>, in its order.\<close>

definition sentinels :: "real list" where
  "sentinels =
     [- 95 / 10, - 995 / 10, - 999 / 10, - 9995 / 100, - 9995 / 10, - 99995 / 10,
      - 995 / 100, - 9995, - 98 / 10, - 9995, - 95 / 10, - 997 / 10, - 999 / 10]"

text \<open>A cell of a flattened row: \<^verbatim>\<open>np.nan\<close> or the value as it was read.\<close>

datatype cell = NaN | Val json

text \<open>\<^verbatim>\<open>isinstance(val, (int, float)) and val in (...)\<close>; a boolean equals none of the codes.\<close>

fun clean :: "json \<Rightarrow> cell" where
  "clean (JNum x) = (if x \<in> set sentinels then NaN else Val (JNum x))"
| "clean v = Val v"

text \<open>\<^verbatim>\<open>d.get(k, default)\<close>: only a dict has the method.\<close>

fun py_get :: "json \<Rightarrow> string \<Rightarrow> json \<Rightarrow> error + json" where
  "py_get (JObj kvs) k dflt = Inr (case map_of kvs k of None \<Rightarrow> dflt | Some v \<Rightarrow> v)"
| "py_get _ k dflt = Inl AttributeError"

text \<open>\<^verbatim>\<open>isinstance(d, dict) and k in d\<close>, with the value under the key.\<close>

fun dict_lookup :: "json \<Rightarrow> string \<Rightarrow> json option" where
  "dict_lookup (JObj kvs) k = map_of kvs k"
| "dict_lookup _ k = None"

text \<open>The truth value of a parsed value, as \<^verbatim>\<open>or\<close> tests it.\<close>

fun truthy :: "json \<Rightarrow> bool" where
  "truthy JNull = False"
| "truthy (JBool b) = b"
| "truthy (JNum x) = (x \<noteq> 0)"
| "truthy (JStr s) = (s \<noteq> [])"
| "truthy (JArr xs) = (xs \<noteq> [])"
| "truthy (JObj kvs) = (kvs \<noteq> [])"

text \<open>
  \<^verbatim>\<open>for x in v\<close>: a list gives its elements, a dict its keys, a string its characters;
  \<^verbatim>\<open>None\<close>, a boolean and a number are not iterable.
\<close>

fun iterate :: "json \<Rightarrow> error + json list" where
  "iterate (JArr xs) = Inr xs"
| "iterate (JObj kvs) = Inr (map (\<lambda>kv. JStr (fst kv)) kvs)"
| "iterate (JStr s) = Inr (map (\<lambda>c. JStr [c]) s)"
| "iterate _ = Inl TypeError"

text \<open>A loop that extends \<^verbatim>\<open>records\<close> with the rows of each element and stops at an exception.\<close>

fun collect_rows :: "('a \<Rightarrow> error + 'b list) \<Rightarrow> 'a list \<Rightarrow> error + 'b list" where
  "collect_rows f [] = Inr []"
| "collect_rows f (x # xs) =
     (case f x of
        Inl e \<Rightarrow> Inl e
      | Inr ys \<Rightarrow> (case collect_rows f xs of Inl e \<Rightarrow> Inl e | Inr zs \<Rightarrow> Inr (ys @ zs)))"

text \<open>A flattened row: StationID, DataTime, and the cells by column name.\<close>

type_synonym raw_row = "string \<times> json \<times> (string \<times> cell) list"

text \<open>\<^verbatim>\<open>for sub in subs\<close> with \<^verbatim>\<open>col = f"{grp}_{sub}"\<close>\<close>

fun group_cells :: "json \<Rightarrow> string \<Rightarrow> string list \<Rightarrow> error + (string \<times> cell) list" where
  "group_cells grp_data grp [] = Inr []"
| "group_cells grp_data grp (sub # subs) =
     (case py_get grp_data sub JNull of
        Inl e \<Rightarrow> Inl e
      | Inr val \<Rightarrow>
          (case group_cells grp_data grp subs of
             Inl e \<Rightarrow> Inl e
           | Inr cs \<Rightarrow> Inr ((grp @ ''_'' @ sub, clean val) # cs)))"

text \<open>\<^verbatim>\<open>for grp, subs in fields.items()\<close> with \<^verbatim>\<open>grp_data = entry.get(grp, {}) or {}\<close>\<close>

fun fields_cells :: "json \<Rightarrow> (string \<times> string list) list \<Rightarrow> error + (string \<times> cell) list" where
  "fields_cells entry [] = Inr []"
| "fields_cells entry (f # fs) =
     (case py_get entry (fst f) (JObj []) of
        Inl e \<Rightarrow> Inl e
      | Inr g \<Rightarrow>
          (case group_cells (if truthy g then g else JObj []) (fst f) (snd f) of
             Inl e \<Rightarrow> Inl e
           | Inr cs \<Rightarrow>
               (case fields_cells entry fs of Inl e \<Rightarrow> Inl e | Inr cs' \<Rightarrow> Inr (cs @ cs'))))"

definition entry_rows :: "string \<Rightarrow> json \<Rightarrow> error + raw_row list" where
  "entry_rows sid entry =
     (case py_get entry ''DataTime'' JNull of
        Inl e \<Rightarrow> Inl e
      | Inr dt \<Rightarrow>
          (case fields_cells entry fields of
             Inl e \<Rightarrow> Inl e
           | Inr cs \<Rightarrow> Inr [(sid, dt, cs)]))"

text \<open>\<^verbatim>\<open>dts = item.get('dts') or item.get('data', [])\<close> and the loop over it.\<close>

definition item_rows :: "string \<Rightarrow> json \<Rightarrow> error + raw_row list" where
  "item_rows sid item =
     (case py_get item ''dts'' JNull of
        Inl e \<Rightarrow> Inl e
      | Inr a \<Rightarrow>
          (case (if truthy a then Inr a else py_get item ''data'' (JArr [])) of
             Inl e \<Rightarrow> Inl e
           | Inr dts \<Rightarrow>
               (case iterate dts of
                  Inl e \<Rightarrow> Inl e
                | Inr entries \<Rightarrow> collect_rows (entry_rows sid) entries)))"

text \<open>The three shapes of a document, and \<^verbatim>\<open>items = []\<close> for any other.\<close>

definition top_items :: "json \<Rightarrow> json" where
  "top_items data =
     (case dict_lookup data ''data'' of
        Some v \<Rightarrow> v
      | None \<Rightarrow>
          (case data of
             JArr xs \<Rightarrow> data
           | _ \<Rightarrow>
               if dict_lookup data ''StationID'' \<noteq> None \<and> dict_lookup data ''dts'' \<noteq> None
               then JArr [data] else JArr []))"

definition file_rows :: "string \<Rightarrow> raw_file \<Rightarrow> error + raw_row list" where
  "file_rows sid f =
     (case f of
        Unparseable \<Rightarrow> Inl JSONDecodeError
      | Parsed data \<Rightarrow>
          (case iterate (top_items data) of
             Inl e \<Rightarrow> Inl e
           | Inr items \<Rightarrow> collect_rows (item_rows sid) items))"

text \<open>\<^verbatim>\<open>fname.endswith('.json')\<close>\<close>

definition endswith :: "string \<Rightarrow> string \<Rightarrow> bool" where
  "endswith s suf \<longleftrightarrow> length suf \<le> length s \<and> drop (length s - length suf) s = suf"

text \<open>\<^verbatim>\<open>for fname in sorted(os.listdir(station_dir))\<close>; the names of a directory differ.\<close>

definition named_file_rows :: "string \<Rightarrow> string \<times> raw_file \<Rightarrow> error + raw_row list" where
  "named_file_rows sid nf = (if endswith (fst nf) ''.json'' then file_rows sid (snd nf) else Inr [])"

definition dir_rows :: "string \<Rightarrow> (string \<times> raw_file) list \<Rightarrow> error + raw_row list" where
  "dir_rows sid files = collect_rows (named_file_rows sid) (sort_key fst files)"

text \<open>
  \<^verbatim>\<open>flatten_and_clean\<close>: the records of the table it writes and returns, or the exception
  that ends it.
\<close>

definition station_rows :: "his_root \<Rightarrow> string \<Rightarrow> error + raw_row list" where
  "station_rows his sid = (case map_of his sid of None \<Rightarrow> Inr [] | Some files \<Rightarrow> dir_rows sid files)"

definition flatten_and_clean :: "string set \<Rightarrow> his_root \<Rightarrow> error + raw_row list" where
  "flatten_and_clean valid_stations his =
     collect_rows (station_rows his) (sorted_list_of_set valid_stations)"

text \<open>A document that has one of the three shapes.\<close>

definition recognised :: "json \<Rightarrow> bool" where
  "recognised data =
     (case dict_lookup data ''data'' of
        Some v \<Rightarrow> True
      | None \<Rightarrow>
          (case data of
             JArr xs \<Rightarrow> True
           | _ \<Rightarrow>
               (case dict_lookup data ''StationID'' of
                  None \<Rightarrow> False
                | Some s \<Rightarrow> (case dict_lookup data ''dts'' of None \<Rightarrow> False | Some d \<Rightarrow> True))))"

text \<open>A file that parses to a document of none of the three shapes.\<close>

definition skipped_shape :: "string \<times> raw_file \<Rightarrow> bool" where
  "skipped_shape nf = (case snd nf of Unparseable \<Rightarrow> False | Parsed data \<Rightarrow> \<not> recognised data)"

text \<open>The directories without the files of \<open>skipped_shape\<close>.\<close>

definition drop_skipped :: "his_root \<Rightarrow> his_root" where
  "drop_skipped his = map (\<lambda>d. (fst d, filter (\<lambda>nf. \<not> skipped_shape nf) (snd d))) his"

subsection \<open>Example files\<close>

text \<open>One hour of one day, in the shape of a bare list.\<close>

definition good_day :: json where
  "good_day =
     JArr [JObj [(''StationID'', JStr ''A''),
                 (''dts'', JArr [JObj [(''DataTime'', JStr ''2024-05-02T01:00:00''),
                                       (''AirTemperature'',
                                          JObj [(''Instantaneous'', JNum 20),
                                                (''Maximum'', JNum (- 995 / 10))])]])]]"

text \<open>A document of none of the three shapes.\<close>

definition odd_day :: json where
  "odd_day = JObj [(''error'', JStr ''no data for this day'')]"

definition truncated_root :: his_root where
  "truncated_root =
     [(''A'', [(''2024-05-01.json'', Unparseable), (''2024-05-02.json'', Parsed good_day)])]"

definition good_root :: his_root where
  "good_root = [(''A'', [(''2024-05-02.json'', Parsed good_day)])]"

definition odd_root :: his_root where
  "odd_root =
     [(''A'', [(''2024-05-02.json'', Parsed good_day), (''2024-05-01.json'', Parsed odd_day)])]"

section \<open>Properties\<close>

subsection \<open>Inverse-distance weighting\<close>

lemma weight_nonneg: "0 \<le> weight d"
  by (simp add: weight_def split: option.splits)

lemma foldl_fadd_products:
  "length vs = length ws \<Longrightarrow>
   foldl fadd (Some a) (map (\<lambda>(v, wi). fmul v wi) (zip (map Some vs) ws))
     = Some (a + (\<Sum>(v, wi)\<leftarrow>zip vs ws. v * wi))"
proof (induction vs arbitrary: ws a)
  case Nil
  then show ?case by simp
next
  case (Cons v vs)
  then obtain w ws' where ws: "ws = w # ws'" by (cases ws) auto
  with Cons show ?case by (simp add: add.assoc)
qed

lemma foldl_fadd_None: "foldl fadd None xs = None"
  by (induction xs) auto

lemma foldl_fadd_Some_all:
  "length vals = length ws \<Longrightarrow>
   foldl fadd a (map (\<lambda>(v, wi). fmul v wi) (zip vals ws)) = Some s \<Longrightarrow> \<exists>vs. vals = map Some vs"
proof (induction vals arbitrary: ws a)
  case Nil
  then show ?case by simp
next
  case (Cons v vals)
  then obtain w ws' where ws: "ws = w # ws'" by (cases ws) auto
  from Cons.prems(2) ws
  have st: "foldl fadd (fadd a (fmul v w)) (map (\<lambda>(v, wi). fmul v wi) (zip vals ws')) = Some s"
    by simp
  have "v \<noteq> None"
  proof
    assume "v = None"
    then have "fadd a (fmul v w) = None" by (cases a) auto
    with st show False by (simp add: foldl_fadd_None)
  qed
  then obtain x where "v = Some x" by auto
  moreover from Cons.IH[of ws', OF _ st] Cons.prems(1) ws obtain vs where "vals = map Some vs"
    by auto
  ultimately have "v # vals = map Some (x # vs)" by simp
  then show ?case by (rule exI)
qed

lemma weighted_sum_bounds:
  fixes vs ws :: "real list"
  assumes "length vs = length ws" "\<forall>w \<in> set ws. 0 \<le> w" "\<forall>v \<in> set vs. lo \<le> v \<and> v \<le> hi"
  shows "lo * sum_list ws \<le> (\<Sum>(v, wi)\<leftarrow>zip vs ws. v * wi)
       \<and> (\<Sum>(v, wi)\<leftarrow>zip vs ws. v * wi) \<le> hi * sum_list ws"
  using assms
proof (induction vs arbitrary: ws)
  case Nil
  then show ?case by simp
next
  case (Cons v vs)
  then obtain w ws' where ws: "ws = w # ws'" by (cases ws) auto
  with Cons.prems have w: "0 \<le> w" and v: "lo \<le> v" "v \<le> hi" by auto
  from Cons.IH[of ws'] Cons.prems ws
  have ih: "lo * sum_list ws' \<le> (\<Sum>(v, wi)\<leftarrow>zip vs ws'. v * wi)"
           "(\<Sum>(v, wi)\<leftarrow>zip vs ws'. v * wi) \<le> hi * sum_list ws'" by auto
  have "lo * w \<le> v * w" "v * w \<le> hi * w" using w v by (auto intro: mult_right_mono)
  with ih ws show ?case by (simp add: distrib_left)
qed

lemma idw_convex:
  assumes len: "length vals = length dists" and e: "idw vals dists = Some e"
  shows "\<exists>vs. vals = map Some vs \<and> vs \<noteq> [] \<and> Min (set vs) \<le> e \<and> e \<le> Max (set vs)"
proof -
  let ?w = "map weight dists"
  let ?num = "fsum (map (\<lambda>(v, wi). fmul v wi) (zip vals ?w))"
  from e have d: "fdiv ?num (sum_list ?w) = Some e" by (simp add: idw_def Let_def)
  then obtain s where s: "?num = Some s" by (cases ?num) auto
  with d have nz: "sum_list ?w \<noteq> 0" and ev: "e = s / sum_list ?w" by (auto split: if_splits)
  from s len obtain vs where vs: "vals = map Some vs"
    using foldl_fadd_Some_all[of vals ?w "Some 0" s] by (auto simp: fsum_def)
  have lvs: "length vs = length ?w" using len vs by simp
  have s': "s = (\<Sum>(v, wi)\<leftarrow>zip vs ?w. v * wi)"
    using s foldl_fadd_products[OF lvs, of 0] by (simp add: fsum_def vs)
  have nonneg: "\<forall>w \<in> set ?w. 0 \<le> w" by (auto simp: weight_nonneg)
  then have "0 \<le> sum_list ?w" by (intro sum_list_nonneg) auto
  with nz have pos: "0 < sum_list ?w" by simp
  have ne: "vs \<noteq> []" using nz lvs by auto
  have bnd: "\<forall>v \<in> set vs. Min (set vs) \<le> v \<and> v \<le> Max (set vs)" by simp
  from weighted_sum_bounds[OF lvs nonneg bnd] s'
  have "Min (set vs) * sum_list ?w \<le> s" "s \<le> Max (set vs) * sum_list ?w" by auto
  with pos ev have "Min (set vs) \<le> e" "e \<le> Max (set vs)"
    by (simp_all add: pos_le_divide_eq pos_divide_le_eq)
  with vs ne show ?thesis by blast
qed

subsection \<open>Reading and writing cells\<close>

lemma col_pos_Some_iff: "(\<exists>j. col_pos cols c = Some j) \<longleftrightarrow> c \<in> set cols"
  by (induction cols) auto

lemma col_pos_less: "col_pos cols c = Some j \<Longrightarrow> j < length cols"
  by (induction cols arbitrary: j) (auto split: if_splits)

lemma col_pos_inj: "col_pos cols c = Some j \<Longrightarrow> col_pos cols c' = Some j \<Longrightarrow> c = c'"
  by (induction cols arbitrary: j) (auto split: if_splits)

lemma filter_label_map:
  "(\<And>r. fst (g r) = fst r) \<Longrightarrow>
   filter (\<lambda>r. fst r = s) (map g rs) = map g (filter (\<lambda>r. fst r = s) rs)"
  by (induction rs) auto

lemma filter_label_distinct:
  "distinct (map fst rs) \<Longrightarrow> s \<in> fst ` set rs \<Longrightarrow> \<exists>r. filter (\<lambda>r. fst r = s) rs = [r] \<and> r \<in> set rs"
proof (induction rs)
  case Nil
  then show ?case by simp
next
  case (Cons a rs)
  show ?case
  proof (cases "fst a = s")
    case True
    with Cons.prems have "s \<notin> fst ` set rs" by auto
    then have "filter (\<lambda>r. fst r = s) rs = []"
      unfolding filter_empty_conv by (metis imageI)
    with True show ?thesis by simp
  next
    case False
    with Cons show ?thesis by auto
  qed
qed

lemma at_get_wf:
  assumes "wf_frame grp" "s \<in> set (index grp)" "c \<in> set (columns grp)"
  shows "\<exists>v. at_get grp s c = Inr v"
proof -
  from assms(3) obtain j where j: "col_pos (columns grp) c = Some j"
    using col_pos_Some_iff by metis
  from assms(1,2) obtain r where r: "filter (\<lambda>r. fst r = s) (rows grp) = [r]" "r \<in> set (rows grp)"
    using filter_label_distinct[of "rows grp" s] by (auto simp: wf_frame_def index_def)
  with assms(1) have "length (snd r) = length (columns grp)" by (simp add: wf_frame_def)
  with col_pos_less[OF j] have "j < length (snd r)" by simp
  with j r show ?thesis by (simp add: at_get_def)
qed

lemma at_set_shape:
  assumes "at_set grp s c x = Inr grp'"
  shows "index grp' = index grp" "columns grp' = columns grp" "wf_frame grp \<Longrightarrow> wf_frame grp'"
proof -
  from assms obtain j where j: "col_pos (columns grp) c = Some j"
    and g: "grp' = grp\<lparr>rows := map (\<lambda>r. if fst r = s then (fst r, (snd r)[j := x]) else r) (rows grp)\<rparr>"
    by (auto simp: at_set_def split: option.splits)
  show i: "index grp' = index grp" by (simp add: g index_def comp_def if_distrib cong: if_cong)
  show c: "columns grp' = columns grp" by (simp add: g)
  assume "wf_frame grp"
  then show "wf_frame grp'" unfolding wf_frame_def i c by (auto simp: g)
qed

lemma at_set_wf:
  "c \<in> set (columns grp) \<Longrightarrow> \<exists>grp'. at_set grp s c x = Inr grp'"
  using col_pos_Some_iff[of "columns grp" c] by (auto simp: at_set_def)

lemma at_get_at_set_same:
  assumes "at_get grp s c = Inr v" "at_set grp s c x = Inr grp'"
  shows "at_get grp' s c = Inr x"
proof -
  from assms(2) obtain j where j: "col_pos (columns grp) c = Some j"
    and g: "grp' = grp\<lparr>rows := map (\<lambda>r. if fst r = s then (fst r, (snd r)[j := x]) else r) (rows grp)\<rparr>"
    by (auto simp: at_set_def split: option.splits)
  from assms(1) j obtain r where r: "filter (\<lambda>r. fst r = s) (rows grp) = [r]" "j < length (snd r)"
    by (auto simp: at_get_def split: list.splits if_splits)
  have fr: "fst r = s" using r(1) by (metis (mono_tags, lifting) filter_eq_ConsD)
  have "filter (\<lambda>r. fst r = s) (rows grp') =
        map (\<lambda>r. if fst r = s then (fst r, (snd r)[j := x]) else r) (filter (\<lambda>r. fst r = s) (rows grp))"
    unfolding g by (simp add: filter_label_map)
  with r j fr show ?thesis by (simp add: at_get_def g)
qed

lemma at_get_at_set_other:
  assumes "at_set grp s c x = Inr grp'" "s' \<noteq> s \<or> c' \<noteq> c"
  shows "at_get grp' s' c' = at_get grp s' c'"
proof -
  from assms(1) obtain j where j: "col_pos (columns grp) c = Some j"
    and g: "grp' = grp\<lparr>rows := map (\<lambda>r. if fst r = s then (fst r, (snd r)[j := x]) else r) (rows grp)\<rparr>"
    by (auto simp: at_set_def split: option.splits)
  have f: "filter (\<lambda>r. fst r = s') (rows grp') =
        map (\<lambda>r. if fst r = s then (fst r, (snd r)[j := x]) else r) (filter (\<lambda>r. fst r = s') (rows grp))"
    unfolding g by (simp add: filter_label_map)
  show ?thesis
  proof (cases "col_pos (columns grp) c'")
    case None
    then show ?thesis by (simp add: at_get_def g)
  next
    case (Some j')
    show ?thesis
    proof (cases "filter (\<lambda>r. fst r = s') (rows grp)")
      case Nil
      with f Some show ?thesis by (simp add: at_get_def g)
    next
      case (Cons r rs)
      note C = this
      show ?thesis
      proof (cases rs)
        case Nil
        have "fst r = s'" using C by (metis (mono_tags, lifting) filter_eq_ConsD)
        moreover have "j' \<noteq> j \<or> s' \<noteq> s" using assms(2) j Some col_pos_inj by blast
        ultimately show ?thesis using f C Nil Some by (auto simp: at_get_def g)
      next
        case (Cons r' rs')
        with f C Some show ?thesis by (simp add: at_get_def g)
      qed
    qed
  qed
qed

lemma at_all_length: "at_all grp col avail = Inr vals \<Longrightarrow> length vals = length avail"
  by (induction avail arbitrary: vals) (auto split: sum.splits)

lemmas worker_eval = impute_slice_def cells_of_def index_def impute_cell_def at_get_def at_set_def
  nbr_get_def MIN_NEIGHBORS_def IDW_POWER_def idw_def weight_def fsum_def Let_def

lemmas builder_eval = compute_and_cache_neighbors_def neighbors_entry_def dists_of_def
  sort_by_distance_def distance_3d_def radians_def round4_float_def round4_def round_half_even_def

subsection \<open>Candidates found by the scan\<close>

lemma scan_candidates:
  "scan grp col ns acc = Inr avail \<Longrightarrow>
   \<forall>a \<in> set acc. \<exists>v. at_get grp (fst a) col = Inr (Some v) \<Longrightarrow>
   \<forall>a \<in> set avail. \<exists>v. at_get grp (fst a) col = Inr (Some v)"
proof (induction ns arbitrary: acc)
  case Nil
  then show ?case by simp
next
  case (Cons n ns)
  show ?case
  proof (cases "fst n \<in> set (index grp)")
    case False
    with Cons.prems have "scan grp col ns acc = Inr avail" by simp
    from Cons.IH[OF this Cons.prems(2)] show ?thesis .
  next
    case True
    with Cons.prems(1) obtain val where val: "at_get grp (fst n) col = Inr val"
      by (auto split: sum.splits)
    define acc' where "acc' = (if val \<noteq> None then acc @ [(fst n, snd n)] else acc)"
    have acc': "\<forall>a \<in> set acc'. \<exists>v. at_get grp (fst a) col = Inr (Some v)"
      using Cons.prems(2) val by (auto simp: acc'_def)
    show ?thesis
    proof (cases "length acc' \<ge> MIN_NEIGHBORS")
      case True
      with Cons.prems(1) \<open>fst n \<in> set (index grp)\<close> val have "avail = acc'"
        by (simp add: acc'_def Let_def)
      with acc' show ?thesis by simp
    next
      case False
      with Cons.prems(1) \<open>fst n \<in> set (index grp)\<close> val have "scan grp col ns acc' = Inr avail"
        by (simp add: acc'_def Let_def)
      from Cons.IH[OF this acc'] show ?thesis .
    qed
  qed
qed

lemma at_all_present:
  "\<forall>a \<in> set avail. \<exists>v. at_get grp (fst a) col = Inr (Some v) \<Longrightarrow>
   \<exists>vs. at_all grp col avail = Inr (map Some vs) \<and> length vs = length avail"
proof (induction avail)
  case Nil
  then show ?case by simp
next
  case (Cons a avail)
  then obtain v where v: "at_get grp (fst a) col = Inr (Some v)" by auto
  from Cons obtain vs where vs: "at_all grp col avail = Inr (map Some vs)" "length vs = length avail"
    by auto
  have "at_all grp col (a # avail) = Inr (map Some (v # vs))" using v vs by simp
  moreover have "length (v # vs) = length (a # avail)" using vs by simp
  ultimately show ?case by blast
qed

lemma fdiv_zero: "fdiv x 0 = None"
  by (cases x) auto

lemma idw_zero_weight_sum: "sum_list (map weight ds) = 0 \<Longrightarrow> idw vals ds = None"
  by (simp add: idw_def Let_def fdiv_zero)

lemma zero_weights_products:
  fixes vs ws :: "real list"
  shows "\<forall>w \<in> set ws. w = 0 \<Longrightarrow> (\<Sum>(v, wi)\<leftarrow>zip vs ws. v * wi) = 0"
proof (induction vs arbitrary: ws)
  case Nil
  then show ?case by simp
next
  case (Cons v vs)
  then show ?case by (cases ws) auto
qed

lemma wsum_zero_numerator:
  "length vs = length ds \<Longrightarrow> sum_list (map weight ds) = 0 \<Longrightarrow>
   fsum (map (\<lambda>(v, wi). fmul v wi) (zip (map Some vs) (map weight ds))) = Some 0"
proof -
  assume len: "length vs = length ds" and z: "sum_list (map weight ds) = 0"
  have nn: "\<forall>w \<in> set (map weight ds). 0 \<le> w" by (auto simp: weight_nonneg)
  have all0: "\<forall>w \<in> set (map weight ds). w = 0"
    using z nn by (metis sum_list_nonneg_eq_0_iff)
  have "(\<Sum>(v, wi)\<leftarrow>zip vs (map weight ds). v * wi) = 0"
    using all0 by (rule zero_weights_products)
  then show ?thesis using foldl_fadd_products[of vs "map weight ds" 0] len
    by (simp add: fsum_def)
qed

text \<open>
  On a well-formed slice the scan returns the first \<open>MIN_NEIGHBORS\<close> candidates of the
  neighbour list, in the order of the list, or all of them when there are fewer.
\<close>

lemma scan_takes_first_candidates:
  assumes wf: "wf_frame grp" and c: "col \<in> set (columns grp)"
  shows "length acc < MIN_NEIGHBORS \<Longrightarrow>
         scan grp col ns acc
           = Inr (acc @ take (MIN_NEIGHBORS - length acc) (filter (eligible grp col) ns))"
proof (induction ns arbitrary: acc)
  case Nil
  then show ?case by simp
next
  case (Cons n ns)
  show ?case
  proof (cases "fst n \<in> set (index grp)")
    case False
    with Cons show ?thesis by (simp add: eligible_def)
  next
    case True
    from at_get_wf[OF wf True c] obtain val where val: "at_get grp (fst n) col = Inr val" by blast
    show ?thesis
    proof (cases val)
      case None
      with val True Cons show ?thesis by (simp add: eligible_def)
    next
      case (Some v)
      then have el: "eligible grp col n" using val True by (simp add: eligible_def)
      show ?thesis
      proof (cases "MIN_NEIGHBORS \<le> Suc (length acc)")
        case True
        with Cons.prems have "MIN_NEIGHBORS - length acc = Suc 0" by simp
        with True val Some \<open>fst n \<in> set (index grp)\<close> el show ?thesis by simp
      next
        case False
        then have l: "length (acc @ [n]) < MIN_NEIGHBORS" by simp
        have "MIN_NEIGHBORS - length acc = Suc (MIN_NEIGHBORS - length (acc @ [n]))"
          using False by simp
        with Cons.IH[OF l] False val Some \<open>fst n \<in> set (index grp)\<close> el show ?thesis by simp
      qed
    qed
  qed
qed

lemma impute_cell_under_quorum:
  assumes "at_get grp station col = Inr None"
    and "scan grp col (nbr_get nbrs station) [] = Inr avail"
    and "length avail < MIN_NEIGHBORS"
  shows "impute_cell t proc nbrs (grp, lg) (station, col) = Inr (grp, lg @ [(t, proc, station, col)])"
  using assms by (simp add: impute_cell_def)

lemma sum_weight_pos:
  "\<exists>d \<in> set ds. 0 < weight d \<Longrightarrow> 0 < sum_list (map weight ds)"
proof (induction ds)
  case Nil
  then show ?case by simp
next
  case (Cons d ds)
  have nn: "0 \<le> sum_list (map weight ds)" by (intro sum_list_nonneg) (auto simp: weight_nonneg)
  show ?case
  proof (cases "0 < weight d")
    case True
    with nn show ?thesis by simp
  next
    case False
    with Cons have "0 < sum_list (map weight ds)" by auto
    with weight_nonneg[of d] show ?thesis by simp
  qed
qed

lemma impute_cell_quorum_fills:
  assumes miss: "at_get grp station col = Inr None"
    and sc: "scan grp col (nbr_get nbrs station) [] = Inr avail"
    and q: "MIN_NEIGHBORS \<le> length avail"
    and p: "\<exists>a \<in> set avail. 0 < weight (snd a)"
  shows "\<exists>grp' e. impute_cell t proc nbrs (grp, lg) (station, col) = Inr (grp', lg)
          \<and> at_get grp' station col = Inr (Some e)"
proof -
  from scan_candidates[OF sc] have "\<forall>a \<in> set avail. \<exists>v. at_get grp (fst a) col = Inr (Some v)"
    by simp
  from at_all_present[OF this] obtain vs where va: "at_all grp col avail = Inr (map Some vs)"
    and len: "length vs = length avail" by blast
  from p have "0 < sum_list (map weight (map snd avail))" by (intro sum_weight_pos) auto
  then have nz: "sum_list (map weight (map snd avail)) \<noteq> 0" by simp
  have "length vs = length (map weight (map snd avail))" using len by simp
  from foldl_fadd_products[OF this, of 0]
  obtain e where e: "idw (map Some vs) (map snd avail) = Some e"
    using nz by (simp add: idw_def Let_def fsum_def)
  from miss have "col \<in> set (columns grp)"
    using col_pos_Some_iff[of "columns grp" col] by (auto simp: at_get_def split: option.splits)
  from at_set_wf[OF this] obtain grp' where st: "at_set grp station col (Some e) = Inr grp'"
    by blast
  have "impute_cell t proc nbrs (grp, lg) (station, col) = Inr (grp', lg)"
    using miss sc q va e st by (simp add: impute_cell_def)
  moreover have "at_get grp' station col = Inr (Some e)"
    using at_get_at_set_same[OF miss st] .
  ultimately show ?thesis by blast
qed

subsection \<open>The estimate is a convex combination\<close>

text \<open>
  Claim C5. When the worker fills a missing cell, the value it writes lies between the
  smallest and the largest of the candidate values it read from the slice (exact
  arithmetic). The weights are non-negative by construction, and a value is written only
  when their sum is positive.
\<close>

theorem imputed_value_within_candidates:
  assumes miss: "at_get grp station col = Inr None"
    and step: "impute_cell t proc nbrs (grp, lg) (station, col) = Inr (grp', lg')"
    and fill: "at_get grp' station col = Inr (Some e)"
  shows "\<exists>avail vs. scan grp col (nbr_get nbrs station) [] = Inr avail
           \<and> at_all grp col avail = Inr (map Some vs)
           \<and> vs \<noteq> [] \<and> Min (set vs) \<le> e \<and> e \<le> Max (set vs)"
proof -
  from step miss obtain avail where sc: "scan grp col (nbr_get nbrs station) [] = Inr avail"
    by (auto simp: impute_cell_def split: sum.splits)
  have q: "\<not> length avail < MIN_NEIGHBORS"
  proof
    assume "length avail < MIN_NEIGHBORS"
    with step miss sc have "grp' = grp" by (simp add: impute_cell_def)
    with miss fill show False by simp
  qed
  from step miss sc q obtain vals where va: "at_all grp col avail = Inr vals"
    by (auto simp: impute_cell_def split: sum.splits)
  from step miss sc q va have st: "at_set grp station col (idw vals (map snd avail)) = Inr grp'"
    by (auto simp: impute_cell_def split: sum.splits)
  from at_get_at_set_same[OF miss st] fill have e: "idw vals (map snd avail) = Some e" by simp
  have "length vals = length (map snd avail)" using at_all_length[OF va] by simp
  from idw_convex[OF this e] obtain vs where
    "vals = map Some vs" "vs \<noteq> []" "Min (set vs) \<le> e" "e \<le> Max (set vs)" by blast
  with sc va show ?thesis by blast
qed

theorem imputed_value_within_candidates_witness:
  "at_get ex_frame ''M'' ''T'' = Inr None
   \<and> impute_cell (0::nat) ''w'' ex_neighbors (ex_frame, []) (''M'', ''T'') = Inr (ex_frame_filled, [])
   \<and> at_get ex_frame_filled ''M'' ''T'' = Inr (Some 6)
   \<and> (\<exists>avail vs. scan ex_frame ''T'' (nbr_get ex_neighbors ''M'') [] = Inr avail
           \<and> at_all ex_frame ''T'' avail = Inr (map Some vs)
           \<and> vs \<noteq> [] \<and> Min (set vs) \<le> 6 \<and> 6 \<le> Max (set vs))"
proof -
  have h1: "at_get ex_frame ''M'' ''T'' = Inr None"
    by (simp add: ex_frame_def at_get_def)
  have h2: "impute_cell (0::nat) ''w'' ex_neighbors (ex_frame, []) (''M'', ''T'') = Inr (ex_frame_filled, [])"
    by (simp add: ex_frame_def ex_neighbors_def ex_frame_filled_def worker_eval)
  have h3: "at_get ex_frame_filled ''M'' ''T'' = Inr (Some 6)"
    by (simp add: ex_frame_filled_def at_get_def)
  from imputed_value_within_candidates[OF h1 h2 h3] h1 h2 h3 show ?thesis by blast
qed

subsection \<open>Candidates whose weights sum to zero\<close>

text \<open>
  Claim C3. The claim asks that a missing cell which reaches the quorum with candidates
  whose weights sum to zero is classified and handled. The worker does neither: whenever
  the quorum is reached and the weights of the candidates sum to zero, it divides by the
  zero sum, writes the resulting NaN into the cell, which so stays missing, and appends
  nothing to the log.
\<close>

theorem zero_weight_sum_writes_nan:
  assumes miss: "at_get grp station col = Inr None"
    and sc: "scan grp col (nbr_get nbrs station) [] = Inr avail"
    and q: "MIN_NEIGHBORS \<le> length avail"
    and z: "sum_list (map weight (map snd avail)) = 0"
  shows "\<exists>grp'. impute_cell t proc nbrs (grp, lg) (station, col) = Inr (grp', lg)
          \<and> at_get grp' station col = Inr None"
proof -
  from scan_candidates[OF sc] have "\<forall>a \<in> set avail. \<exists>v. at_get grp (fst a) col = Inr (Some v)"
    by simp
  from at_all_present[OF this] obtain vs where va: "at_all grp col avail = Inr (map Some vs)"
    by blast
  from z have nan: "idw (map Some vs) (map snd avail) = None"
    by (rule idw_zero_weight_sum)
  from miss have "col \<in> set (columns grp)"
    using col_pos_Some_iff[of "columns grp" col] by (auto simp: at_get_def split: option.splits)
  from at_set_wf[OF this] obtain grp' where st: "at_set grp station col None = Inr grp'"
    by blast
  have "impute_cell t proc nbrs (grp, lg) (station, col) = Inr (grp', lg)"
    using miss sc q va nan st by (simp add: impute_cell_def)
  moreover have "at_get grp' station col = Inr None"
    using at_get_at_set_same[OF miss st] .
  ultimately show ?thesis by blast
qed

theorem zero_weight_sum_writes_nan_witness:
  "at_get twin_slice ''X'' ''T'' = Inr None
   \<and> scan twin_slice ''T'' (nbr_get twin_neighbors ''X'') []
        = Inr [(''U'', Some 0), (''V'', Some 0), (''W'', Some 0)]
   \<and> MIN_NEIGHBORS \<le> length [(''U'', Some (0::real)), (''V'', Some 0), (''W'', Some 0)]
   \<and> sum_list (map weight (map snd [(''U'', Some (0::real)), (''V'', Some 0), (''W'', Some 0)])) = 0
   \<and> (\<exists>grp'. impute_cell ''2024-05-01T10:00:00'' ''w1'' twin_neighbors (twin_slice, []) (''X'', ''T'')
                 = Inr (grp', [])
          \<and> at_get grp' ''X'' ''T'' = Inr None)"
proof -
  have h1: "at_get twin_slice ''X'' ''T'' = Inr None"
    by (simp add: twin_slice_def at_get_def)
  have h2: "scan twin_slice ''T'' (nbr_get twin_neighbors ''X'') []
              = Inr [(''U'', Some 0), (''V'', Some 0), (''W'', Some 0)]"
    by (simp add: twin_slice_def twin_neighbors_def worker_eval)
  have h3: "MIN_NEIGHBORS \<le> length [(''U'', Some (0::real)), (''V'', Some 0), (''W'', Some 0)]"
    by (simp add: MIN_NEIGHBORS_def)
  have h4: "sum_list (map weight (map snd [(''U'', Some (0::real)), (''V'', Some 0), (''W'', Some 0)])) = 0"
    by (simp add: weight_def)
  from zero_weight_sum_writes_nan[OF h1 h2 h3 h4, of "''2024-05-01T10:00:00''" "''w1''" "[]"]
    h1 h2 h3 h4 show ?thesis by blast
qed

subsection \<open>Quorum reached, cell not filled\<close>

text \<open>
  Claim C1. The claim says that a missing cell is filled exactly when the scan of its
  neighbour list finds three candidates, and that a cell left missing has one log entry.
  In the slice below the scan for \<open>M\<close> finds the three candidates \<open>A\<close>, \<open>B\<close>,
  \<open>C\<close>, all at distance 0; the worker returns the slice unchanged, \<open>M\<close> still missing,
  and the log empty. The neighbour map is the one the builder computes for four
  stations with the same coordinates.
\<close>

theorem quorum_reached_cell_left_missing_unlogged:
  "at_get degenerate_slice ''M'' ''T'' = Inr None
   \<and> scan degenerate_slice ''T'' (nbr_get degenerate_neighbors ''M'') []
        = Inr [(''A'', Some 0), (''B'', Some 0), (''C'', Some 0)]
   \<and> impute_slice ''2024-05-01T10:00:00'' ''w1'' degenerate_slice degenerate_neighbors
        = Inr (degenerate_slice, [])
   \<and> compute_and_cache_neighbors distance_3d nan_rank degenerate_info = Inr degenerate_neighbors"
proof -
  have a: "at_get degenerate_slice ''M'' ''T'' = Inr None"
    by (simp add: degenerate_slice_def at_get_def)
  have b: "scan degenerate_slice ''T'' (nbr_get degenerate_neighbors ''M'') []
        = Inr [(''A'', Some 0), (''B'', Some 0), (''C'', Some 0)]"
    by (simp add: degenerate_slice_def degenerate_neighbors_def worker_eval)
  have c: "impute_slice ''2024-05-01T10:00:00'' ''w1'' degenerate_slice degenerate_neighbors
        = Inr (degenerate_slice, [])"
    by (simp add: degenerate_slice_def degenerate_neighbors_def worker_eval)
  have d: "compute_and_cache_neighbors distance_3d nan_rank degenerate_info = Inr degenerate_neighbors"
    by (simp add: degenerate_info_def degenerate_neighbors_def builder_eval)
  from a b c d show ?thesis by blast
qed

subsection \<open>Imputed values feed later cells\<close>

text \<open>
  Claim C10. The worker writes each estimate into the slice before it moves on, so a
  later cell of the same feature reads it as a candidate. On the line of five stations,
  once \<open>M1\<close> is filled, the scan for \<open>M2\<close> takes the imputed \<open>M1\<close> as its first
  candidate; with the rows of \<open>M1\<close> and \<open>M2\<close> swapped both estimates change. With the
  co-located stations the set of filled cells changes as well: whichever of \<open>M1\<close>,
  \<open>M2\<close> comes first is filled, and the other is left missing; their neighbour map is
  the one the builder computes from their coordinates.
\<close>

theorem estimates_depend_on_station_order:
  "impute_cell ''2024-05-01T10:00:00'' ''w1'' line_neighbors (line_slice, []) (''M1'', ''T'')
      = Inr (line_slice_after_M1, [])
   \<and> scan line_slice_after_M1 ''T'' (nbr_get line_neighbors ''M2'') []
      = Inr [(''M1'', Some 1), (''A'', Some 3), (''B'', Some 4)]
   \<and> impute_slice ''2024-05-01T10:00:00'' ''w1'' line_slice line_neighbors
      = Inr (\<lparr>columns = [''T''],
              rows = [(''M1'', [Some (380 / 61)]), (''M2'', [Some (63016 / 10309)]),
                      (''A'', [Some 4]), (''B'', [Some 8]), (''C'', [Some 12])]\<rparr>, [])
   \<and> impute_slice ''2024-05-01T10:00:00'' ''w1'' line_slice_swapped line_neighbors
      = Inr (\<lparr>columns = [''T''],
              rows = [(''M2'', [Some (5128 / 769)]), (''M1'', [Some (236900 / 37681)]),
                      (''A'', [Some 4]), (''B'', [Some 8]), (''C'', [Some 12])]\<rparr>, [])
   \<and> mset (rows line_slice_swapped) = mset (rows line_slice)
   \<and> impute_slice ''2024-05-01T10:00:00'' ''w1'' colocated_slice colocated_neighbors
      = Inr (\<lparr>columns = [''T''],
              rows = [(''M1'', [Some 12]), (''M2'', [None]),
                      (''A'', [Some 4]), (''B'', [Some 8]), (''C'', [Some 12])]\<rparr>, [])
   \<and> impute_slice ''2024-05-01T10:00:00'' ''w1'' colocated_slice_swapped colocated_neighbors
      = Inr (\<lparr>columns = [''T''],
              rows = [(''M2'', [Some 12]), (''M1'', [None]),
                      (''A'', [Some 4]), (''B'', [Some 8]), (''C'', [Some 12])]\<rparr>, [])
   \<and> mset (rows colocated_slice_swapped) = mset (rows colocated_slice)
   \<and> compute_and_cache_neighbors distance_3d nan_rank colocated_info = Inr colocated_neighbors"
proof -
  have a: "impute_cell ''2024-05-01T10:00:00'' ''w1'' line_neighbors (line_slice, []) (''M1'', ''T'')
      = Inr (line_slice_after_M1, [])"
    by (simp add: line_slice_def line_neighbors_def line_slice_after_M1_def worker_eval)
  have b: "scan line_slice_after_M1 ''T'' (nbr_get line_neighbors ''M2'') []
      = Inr [(''M1'', Some 1), (''A'', Some 3), (''B'', Some 4)]"
    by (simp add: line_neighbors_def line_slice_after_M1_def worker_eval)
  have c: "impute_slice ''2024-05-01T10:00:00'' ''w1'' line_slice line_neighbors
      = Inr (\<lparr>columns = [''T''],
              rows = [(''M1'', [Some (380 / 61)]), (''M2'', [Some (63016 / 10309)]),
                      (''A'', [Some 4]), (''B'', [Some 8]), (''C'', [Some 12])]\<rparr>, [])"
    by (simp add: line_slice_def line_neighbors_def worker_eval)
  have d: "impute_slice ''2024-05-01T10:00:00'' ''w1'' line_slice_swapped line_neighbors
      = Inr (\<lparr>columns = [''T''],
              rows = [(''M2'', [Some (5128 / 769)]), (''M1'', [Some (236900 / 37681)]),
                      (''A'', [Some 4]), (''B'', [Some 8]), (''C'', [Some 12])]\<rparr>, [])"
    by (simp add: line_slice_swapped_def line_neighbors_def worker_eval)
  have e: "mset (rows line_slice_swapped) = mset (rows line_slice)"
    by (simp add: line_slice_swapped_def line_slice_def add.commute)
  have f: "impute_slice ''2024-05-01T10:00:00'' ''w1'' colocated_slice colocated_neighbors
      = Inr (\<lparr>columns = [''T''],
              rows = [(''M1'', [Some 12]), (''M2'', [None]),
                      (''A'', [Some 4]), (''B'', [Some 8]), (''C'', [Some 12])]\<rparr>, [])"
    by (simp add: colocated_slice_def colocated_neighbors_def worker_eval)
  have g: "impute_slice ''2024-05-01T10:00:00'' ''w1'' colocated_slice_swapped colocated_neighbors
      = Inr (\<lparr>columns = [''T''],
              rows = [(''M2'', [Some 12]), (''M1'', [None]),
                      (''A'', [Some 4]), (''B'', [Some 8]), (''C'', [Some 12])]\<rparr>, [])"
    by (simp add: colocated_slice_swapped_def colocated_neighbors_def worker_eval)
  have h: "mset (rows colocated_slice_swapped) = mset (rows colocated_slice)"
    by (simp add: colocated_slice_swapped_def colocated_slice_def add.commute)
  have i: "compute_and_cache_neighbors distance_3d nan_rank colocated_info = Inr colocated_neighbors"
    by (simp add: colocated_info_def colocated_neighbors_def builder_eval)
  from a b c d e f g h i show ?thesis by blast
qed

subsection \<open>The station catalog\<close>

lemma dict_set_keys:
  "map fst (dict_set ps k v) = (if k \<in> fst ` set ps then map fst ps else map fst ps @ [k])"
  by (induction ps) auto

lemma dict_set_map_of: "map_of (dict_set ps k v) = (map_of ps)(k \<mapsto> v)"
  by (induction ps) (auto simp: fun_eq_iff)

lemma first_seen_set: "set (first_seen xs) = set xs"
  by (induction xs) auto

lemma first_seen_distinct: "distinct (first_seen xs)"
  by (induction xs) (auto simp: first_seen_set)

lemma filter_first_seen_Cons:
  "filter (\<lambda>s. s \<notin> K) (first_seen (x # xs))
     = (if x \<in> K then filter (\<lambda>s. s \<notin> K) (first_seen xs)
        else x # filter (\<lambda>s. s \<notin> insert x K) (first_seen xs))"
proof (cases "x \<in> K")
  case True
  then have "\<And>s. (s \<noteq> x \<and> s \<notin> K) = (s \<notin> K)" by auto
  with True show ?thesis by simp
next
  case False
  have "\<And>s. (s \<noteq> x \<and> s \<notin> K) = (s \<noteq> x \<and> s \<notin> K)" by simp
  with False show ?thesis by (simp add: conj_commute)
qed

text \<open>
  The loop of \<^verbatim>\<open>load_station_info\<close> from any state of its two accumulators: the table
  grows by one row per entry of a valid station; the dict keeps its keys and gains the
  new identifiers in the order in which they first occur; a key's value is that of
  its latest entry.
\<close>

lemma foldl_add_item:
  "snd (foldl (add_item V) acc its)
     = snd acc @ map (\<lambda>e. (fst e, longitude (snd e), latitude (snd e), altitude (snd e)))
                     (List.map_filter
                        (\<lambda>it. case stationID it of
                                 None \<Rightarrow> None
                               | Some sid \<Rightarrow> if sid \<in> V then Some (sid, it) else None) its)
   \<and> map fst (fst (foldl (add_item V) acc its))
     = map fst (fst acc)
       @ filter (\<lambda>s. s \<notin> fst ` set (fst acc))
           (first_seen (map fst
              (List.map_filter
                 (\<lambda>it. case stationID it of
                          None \<Rightarrow> None
                        | Some sid \<Rightarrow> if sid \<in> V then Some (sid, it) else None) its)))
   \<and> map_of (fst (foldl (add_item V) acc its))
     = map_of (fst acc)
       ++ map_of (rev (map (\<lambda>e. (fst e, \<lparr>lon = longitude (snd e), lat = latitude (snd e),
                                           alt = altitude (snd e)\<rparr>))
              (List.map_filter
                 (\<lambda>it. case stationID it of
                          None \<Rightarrow> None
                        | Some sid \<Rightarrow> if sid \<in> V then Some (sid, it) else None) its)))"
proof (induction its arbitrary: acc)
  case Nil
  then show ?case by (simp add: List.map_filter_simps)
next
  case (Cons it its)
  show ?case
  proof (cases "stationID it")
    case None
    then have "add_item V acc it = acc" by (simp add: add_item_def)
    with None Cons.IH[of acc] show ?thesis by (simp add: List.map_filter_simps)
  next
    case (Some sid)
    show ?thesis
    proof (cases "sid \<in> V")
      case False
      with Some have "add_item V acc it = acc" by (simp add: add_item_def)
      with Some False Cons.IH[of acc] show ?thesis by (simp add: List.map_filter_simps)
    next
      case True
      let ?c = "\<lparr>lon = longitude it, lat = latitude it, alt = altitude it\<rparr>"
      let ?acc = "(dict_set (fst acc) sid ?c, snd acc @ [(sid, longitude it, latitude it, altitude it)])"
      have a: "add_item V acc it = ?acc" using Some True by (simp add: add_item_def)
      have k: "fst ` set (dict_set (fst acc) sid ?c) = insert sid (fst ` set (fst acc))"
      proof -
        have "set (map fst (dict_set (fst acc) sid ?c)) = insert sid (set (map fst (fst acc)))"
          unfolding dict_set_keys by auto
        then show ?thesis by simp
      qed
      have m: "(map_of (fst acc))(sid \<mapsto> ?c) ++ n = map_of (fst acc) ++ ([sid \<mapsto> ?c] ++ n)" for n
        by (auto simp: fun_eq_iff map_add_def split: option.splits)
      let ?f = "\<lambda>it. case stationID it of
                          None \<Rightarrow> None
                        | Some sid \<Rightarrow> if sid \<in> V then Some (sid, it) else None"
      have mf: "List.map_filter ?f (it # its) = (sid, it) # List.map_filter ?f its"
        using Some True by (simp add: List.map_filter_simps)
      have f: "foldl (add_item V) acc (it # its) = foldl (add_item V) ?acc its"
        using a by simp
      note ih = Cons.IH[of ?acc]
      have 1: "snd (foldl (add_item V) acc (it # its))
          = snd acc @ map (\<lambda>e. (fst e, longitude (snd e), latitude (snd e), altitude (snd e)))
                     (List.map_filter ?f (it # its))"
        unfolding f mf using ih by simp
      have 2: "map fst (fst (foldl (add_item V) acc (it # its)))
          = map fst (fst acc)
            @ filter (\<lambda>s. s \<notin> fst ` set (fst acc)) (first_seen (map fst (List.map_filter ?f (it # its))))"
      proof -
        have "map fst (fst (foldl (add_item V) acc (it # its)))
            = map fst (dict_set (fst acc) sid ?c)
              @ filter (\<lambda>s. s \<notin> insert sid (fst ` set (fst acc)))
                  (first_seen (map fst (List.map_filter ?f its)))"
          unfolding f using ih k by simp
        also have "\<dots> = map fst (fst acc)
            @ filter (\<lambda>s. s \<notin> fst ` set (fst acc)) (first_seen (sid # map fst (List.map_filter ?f its)))"
        proof (cases "sid \<in> fst ` set (fst acc)")
          case True
          then have "insert sid (fst ` set (fst acc)) = fst ` set (fst acc)" by auto
          with True show ?thesis by (simp only: filter_first_seen_Cons dict_set_keys if_True)
        next
          case False
          then show ?thesis by (simp only: filter_first_seen_Cons dict_set_keys if_False append.simps append_assoc)
        qed
        finally show ?thesis unfolding mf by simp
      qed
      have 3: "map_of (fst (foldl (add_item V) acc (it # its)))
          = map_of (fst acc)
            ++ map_of (rev (map (\<lambda>e. (fst e, \<lparr>lon = longitude (snd e), lat = latitude (snd e),
                                           alt = altitude (snd e)\<rparr>))
                  (List.map_filter ?f (it # its))))"
      proof -
        have "map_of (fst (foldl (add_item V) acc (it # its)))
            = (map_of (fst acc))(sid \<mapsto> ?c)
              ++ map_of (rev (map (\<lambda>e. (fst e, \<lparr>lon = longitude (snd e), lat = latitude (snd e),
                                           alt = altitude (snd e)\<rparr>))
                  (List.map_filter ?f its)))"
          unfolding f by (simp only: ih[THEN conjunct2, THEN conjunct2] fst_conv dict_set_map_of)
        also have "\<dots> = map_of (fst acc)
            ++ ([sid \<mapsto> ?c] ++ map_of (rev (map (\<lambda>e. (fst e, \<lparr>lon = longitude (snd e), lat = latitude (snd e),
                                           alt = altitude (snd e)\<rparr>))
                  (List.map_filter ?f its))))"
          by (rule m)
        finally show ?thesis unfolding mf by simp
      qed
      from 1 2 3 show ?thesis by blast
    qed
  qed
qed

lemma valid_entries_ids: "fst ` set (valid_entries V meta) = V \<inter> catalog_ids meta"
proof -
  have "fst ` set (List.map_filter
                 (\<lambda>it. case stationID it of
                          None \<Rightarrow> None
                        | Some sid \<Rightarrow> if sid \<in> V then Some (sid, it) else None) its)
          = V \<inter> {sid. Some sid \<in> stationID ` set its}" for its :: "item list"
    by (induction its) (auto simp: List.map_filter_simps split: option.splits)
  then show ?thesis by (simp add: valid_entries_def catalog_ids_def)
qed

lemma load_station_info_result:
  "snd (load_station_info V meta)
     = map (\<lambda>e. (fst e, longitude (snd e), latitude (snd e), altitude (snd e))) (valid_entries V meta)
   \<and> map fst (fst (load_station_info V meta)) = first_seen (map fst (valid_entries V meta))
   \<and> map_of (fst (load_station_info V meta))
     = map_of (rev (map (\<lambda>e. (fst e, \<lparr>lon = longitude (snd e), lat = latitude (snd e),
                                         alt = altitude (snd e)\<rparr>))
                        (valid_entries V meta)))"
  using foldl_add_item[of V "([], [])" "concat meta"]
  by (simp add: load_station_info_def valid_entries_def)

lemma load_station_info_keys:
  "fst ` set (fst (load_station_info V meta)) = V \<inter> catalog_ids meta
   \<and> distinct (map fst (fst (load_station_info V meta)))"
proof -
  have k: "map fst (fst (load_station_info V meta)) = first_seen (map fst (valid_entries V meta))"
    using load_station_info_result[of V meta] by simp
  have "set (map fst (fst (load_station_info V meta))) = V \<inter> catalog_ids meta"
    unfolding k by (simp add: first_seen_set valid_entries_ids)
  moreover have "distinct (map fst (fst (load_station_info V meta)))"
    unfolding k by (rule first_seen_distinct)
  ultimately show ?thesis by simp
qed

text \<open>
  Claim C7. The claim says that the catalog step fails when a valid station has no
  catalog entry. \<^verbatim>\<open>load_station_info\<close> has no such check: for the valid stations \<open>A\<close>
  and \<open>B\<close> and a catalog without \<open>B\<close> it returns the mapping and the metadata table
  for \<open>A\<close> alone.
\<close>

theorem missing_catalog_entry_not_detected:
  "''B'' \<in> {''A'', ''B''} \<and> ''B'' \<notin> catalog_ids partial_catalog
   \<and> load_station_info {''A'', ''B''} partial_catalog
       = ([(''A'', \<lparr>lon = Some 121, lat = Some 25, alt = Some 10\<rparr>)],
          [(''A'', Some 121, Some 25, Some 10)])"
  by (simp add: load_station_info_def partial_catalog_def add_item_def catalog_ids_def)

text \<open>
  Claim C7, amended. For every set of valid stations and every catalog,
  \<^verbatim>\<open>load_station_info\<close> returns these two values. The metadata table has one row for
  each catalog entry of a valid station, in the order of the catalog, with the entry's
  longitude, latitude and altitude. The mapping has as its keys exactly the valid
  stations that occur in the catalog, each once, in the order of their first entries,
  and gives each the coordinates of its last entry. The stations of the table are the
  same ones. So a valid station without a catalog entry is in neither, and nothing
  tells of it.
\<close>

theorem station_info_covers_catalogued_valid_stations:
  "snd (load_station_info V meta)
     = map (\<lambda>e. (fst e, longitude (snd e), latitude (snd e), altitude (snd e))) (valid_entries V meta)
   \<and> map fst (fst (load_station_info V meta)) = first_seen (map fst (valid_entries V meta))
   \<and> map_of (fst (load_station_info V meta))
     = map_of (rev (map (\<lambda>e. (fst e, \<lparr>lon = longitude (snd e), lat = latitude (snd e),
                                         alt = altitude (snd e)\<rparr>))
                        (valid_entries V meta)))
   \<and> fst ` set (fst (load_station_info V meta)) = V \<inter> catalog_ids meta
   \<and> distinct (map fst (fst (load_station_info V meta)))
   \<and> fst ` set (snd (load_station_info V meta)) = V \<inter> catalog_ids meta"
proof -
  have t: "snd (load_station_info V meta)
     = map (\<lambda>e. (fst e, longitude (snd e), latitude (snd e), altitude (snd e))) (valid_entries V meta)"
    using load_station_info_result[of V meta] by simp
  have "fst ` set (snd (load_station_info V meta)) = fst ` set (valid_entries V meta)"
    unfolding t by (simp add: image_image)
  then have "fst ` set (snd (load_station_info V meta)) = V \<inter> catalog_ids meta"
    by (simp add: valid_entries_ids)
  with load_station_info_result[of V meta] load_station_info_keys[of V meta]
  show ?thesis by simp
qed

subsection \<open>The neighbour graph builder\<close>






lemma collect_results_Inr: "collect_results (map Inr xs) = Inr xs"
  by (induction xs) auto

lemma collect_results_first_error:
  "collect_results (map Inr xs @ Inl e # rs) = Inl e"
  by (induction xs) auto

lemma collect_results_all2:
  "\<forall>g \<in> set gs. \<exists>r. f g = Inr r \<and> P g r \<Longrightarrow>
   \<exists>rs. collect_results (map f gs) = Inr rs \<and> list_all2 P gs rs"
proof (induction gs)
  case Nil
  then show ?case by simp
next
  case (Cons g gs)
  then obtain r where r: "f g = Inr r" "P g r" by auto
  from Cons obtain rs where rs: "collect_results (map f gs) = Inr rs" "list_all2 P gs rs" by auto
  from r rs have "collect_results (map f (g # gs)) = Inr (r # rs)" "list_all2 P (g # gs) (r # rs)"
    by auto
  then show ?case by blast
qed

lemma collect_results_map:
  "\<forall>x \<in> set xs. f x = Inr (g x) \<Longrightarrow> collect_results (map f xs) = Inr (map g xs)"
  by (induction xs) auto

lemma distance_3d_returns: "\<exists>d. distance_3d i1 i2 = Inr d"
  by (simp add: distance_3d_def Let_def split: option.splits)


lemma sort_by_distance_set: "set (sort_by_distance nan_rank ds) = set ds"
  by (simp add: sort_by_distance_def)



lemma sort_by_distance_stable:
  assumes "None \<notin> snd ` set ds"
  shows "filter (\<lambda>q. snd q = Some k) (sort_by_distance nan_rank ds) = filter (\<lambda>q. snd q = Some k) ds"
proof -
  let ?key = "\<lambda>x::nbr. case snd x of None \<Rightarrow> 0 | Some d \<Rightarrow> d"
  have eq: "(snd q = Some k) = (?key q = k)" if "q \<in> set ds" for q
  proof -
    from that assms have "snd q \<noteq> None" by force
    then show ?thesis by (auto split: option.splits)
  qed
  have s: "sort_by_distance nan_rank ds = sort_key ?key ds"
    using assms by (simp add: sort_by_distance_def)
  have "filter (\<lambda>q. snd q = Some k) (sort_key ?key ds) = filter (\<lambda>q. ?key q = k) (sort_key ?key ds)"
    by (rule filter_cong) (auto simp: eq)
  also have "\<dots> = filter (\<lambda>q. ?key q = k) ds" by (rule sort_key_stable)
  also have "\<dots> = filter (\<lambda>q. snd q = Some k) ds"
    by (rule filter_cong) (auto simp: eq)
  finally show ?thesis unfolding s .
qed




text \<open>
  When no distance raises, the builder returns, and the list of a station is the
  sorted list of the other stations with their computed distances, rounded.
\<close>

lemma dists_of_returns:
  assumes "\<forall>q \<in> set info. fst q \<noteq> sid \<longrightarrow> (\<exists>d. dist3d i1 (snd q) = Inr d)"
  shows "dists_of dist3d info sid i1
           = Inr (map (\<lambda>q. (fst q, case dist3d i1 (snd q) of Inl e \<Rightarrow> None | Inr d \<Rightarrow> d))
                      (filter (\<lambda>q. fst q \<noteq> sid) info))"
  unfolding dists_of_def
proof (rule collect_results_map, rule ballI)
  fix q assume "q \<in> set (filter (\<lambda>q. fst q \<noteq> sid) info)"
  with assms obtain d where "dist3d i1 (snd q) = Inr d" by auto
  then show "(case dist3d i1 (snd q) of Inl e \<Rightarrow> Inl e | Inr d \<Rightarrow> Inr (fst q, d))
           = Inr (fst q, case dist3d i1 (snd q) of Inl e \<Rightarrow> None | Inr d \<Rightarrow> d)"
    by simp
qed

lemma neighbors_returns:
  assumes r: "\<forall>p \<in> set info. \<forall>q \<in> set info. fst q \<noteq> fst p \<longrightarrow> (\<exists>d. dist3d (snd p) (snd q) = Inr d)"
  shows "compute_and_cache_neighbors dist3d nan_rank info
           = Inr (map (\<lambda>p. (fst p,
                    map (\<lambda>q. (fst q, round4_float (snd q)))
                      (sort_by_distance nan_rank
                         (map (\<lambda>q. (fst q, case dist3d (snd p) (snd q) of Inl e \<Rightarrow> None | Inr d \<Rightarrow> d))
                              (filter (\<lambda>q. fst q \<noteq> fst p) info))))) info)"
  unfolding compute_and_cache_neighbors_def
proof (rule collect_results_map, rule ballI)
  fix p assume "p \<in> set info"
  with r have "\<forall>q \<in> set info. fst q \<noteq> fst p \<longrightarrow> (\<exists>d. dist3d (snd p) (snd q) = Inr d)" by blast
  from dists_of_returns[of info "fst p" dist3d "snd p", OF this]
  show "neighbors_entry dist3d nan_rank info p
          = Inr (fst p,
                    map (\<lambda>q. (fst q, round4_float (snd q)))
                      (sort_by_distance nan_rank
                         (map (\<lambda>q. (fst q, case dist3d (snd p) (snd q) of Inl e \<Rightarrow> None | Inr d \<Rightarrow> d))
                              (filter (\<lambda>q. fst q \<noteq> fst p) info))))"
    by (simp add: neighbors_entry_def)
qed

lemma neighbor_list_of:
  assumes d: "distinct (map fst info)" and i1: "map_of info sid = Some i1"
    and r: "\<forall>p \<in> set info. \<forall>q \<in> set info. fst q \<noteq> fst p \<longrightarrow> (\<exists>d. dist3d (snd p) (snd q) = Inr d)"
  shows "\<exists>nb. compute_and_cache_neighbors dist3d nan_rank info = Inr nb
           \<and> map fst nb = map fst info
           \<and> map_of nb sid
               = Some (map (\<lambda>q. (fst q, round4_float (snd q)))
                        (sort_by_distance nan_rank
                           (map (\<lambda>q. (fst q, case dist3d i1 (snd q) of Inl e \<Rightarrow> None | Inr d \<Rightarrow> d))
                                (filter (\<lambda>q. fst q \<noteq> sid) info))))"
proof -
  let ?g = "\<lambda>p. (fst p,
                    map (\<lambda>q. (fst q, round4_float (snd q)))
                      (sort_by_distance nan_rank
                         (map (\<lambda>q. (fst q, case dist3d (snd p) (snd q) of Inl e \<Rightarrow> None | Inr d \<Rightarrow> d))
                              (filter (\<lambda>q. fst q \<noteq> fst p) info))))"
  have nb: "compute_and_cache_neighbors dist3d nan_rank info = Inr (map ?g info)"
    by (rule neighbors_returns[OF r])
  have k: "map fst (map ?g info) = map fst info" by (simp add: comp_def)
  from i1 have m: "(sid, i1) \<in> set info" by (rule map_of_SomeD)
  have "?g (sid, i1) \<in> ?g ` set info" using m by (rule imageI)
  then have "(sid, snd (?g (sid, i1))) \<in> set (map ?g info)" by simp
  moreover have "distinct (map fst (map ?g info))" unfolding k by (rule d)
  ultimately have "map_of (map ?g info) sid = Some (snd (?g (sid, i1)))" by (rule map_of_is_SomeI[rotated])
  with nb k show ?thesis by simp
qed







text \<open>
  The stations at one computed distance from a station appear in its list in the
  order of \<^verbatim>\<open>station_info\<close>, when no distance from the station is NaN.
\<close>

lemma ties_in_dict_order:
  assumes d: "distinct (map fst info)" and i1: "map_of info sid = Some i1"
    and r: "\<forall>p \<in> set info. \<forall>q \<in> set info. fst q \<noteq> fst p \<longrightarrow> (\<exists>d. dist3d (snd p) (snd q) = Inr d)"
    and n: "\<forall>q \<in> set info. fst q \<noteq> sid \<longrightarrow> dist3d i1 (snd q) \<noteq> Inr None"
  shows "\<exists>nb l. compute_and_cache_neighbors dist3d nan_rank info = Inr nb
           \<and> map_of nb sid = Some l
           \<and> (\<forall>k. filter (at_distance dist3d info sid i1 k) (map fst l)
                    = filter (at_distance dist3d info sid i1 k) (map fst info))"
proof -
  let ?oth = "filter (\<lambda>q. fst q \<noteq> sid) info"
  let ?dv = "\<lambda>q. case dist3d i1 (snd q) of Inl e \<Rightarrow> None | Inr d \<Rightarrow> d"
  let ?ds = "map (\<lambda>q. (fst q, ?dv q)) ?oth"
  let ?srt = "sort_by_distance nan_rank ?ds"
  let ?l = "map (\<lambda>q. (fst q, round4_float (snd q))) ?srt"
  from neighbor_list_of[OF d i1 r, of nan_rank] obtain nb where
    nb: "compute_and_cache_neighbors dist3d nan_rank info = Inr nb"
    and l: "map_of nb sid = Some ?l" by blast
  from i1 have m: "(sid, i1) \<in> set info" by (rule map_of_SomeD)
  have dv: "dist3d i1 (snd p) = Inr (?dv p) \<and> ?dv p \<noteq> None" if "p \<in> set info" "fst p \<noteq> sid" for p
  proof -
    from r[rule_format, OF m that(1)] that(2) obtain x where x: "dist3d i1 (snd p) = Inr x" by auto
    with n[rule_format, OF that] show ?thesis by simp
  qed
  have at: "at_distance dist3d info sid i1 k (fst p) = (fst p \<noteq> sid \<and> ?dv p = Some k)"
    if "p \<in> set info" for p k
  proof (cases "fst p = sid")
    case True
    then show ?thesis by (simp add: at_distance_def)
  next
    case False
    from that d have "map_of info (fst p) = Some (snd p)" by simp
    with False dv[OF that False] show ?thesis by (auto simp: at_distance_def)
  qed
  have nn: "None \<notin> snd ` set ?ds"
  proof
    assume "None \<in> snd ` set ?ds"
    then obtain p where "p \<in> set info" "fst p \<noteq> sid" "?dv p = None" by auto
    with dv show False by blast
  qed
  have "filter (at_distance dist3d info sid i1 k) (map fst ?l)
          = filter (at_distance dist3d info sid i1 k) (map fst info)" for k
  proof -
    have fl: "map fst ?l = map fst ?srt" by (simp only: map_map comp_def fst_conv)
    have q: "at_distance dist3d info sid i1 k (fst q) = (snd q = Some k)" if "q \<in> set ?ds" for q
    proof -
      from that obtain p where p: "p \<in> set info" "fst p \<noteq> sid" and qp: "q = (fst p, ?dv p)" by auto
      from at[OF p(1), of k] p(2) qp show ?thesis by simp
    qed
    have "filter (at_distance dist3d info sid i1 k) (map fst ?srt)
            = map fst (filter (\<lambda>q. at_distance dist3d info sid i1 k (fst q)) ?srt)"
      by (simp only: filter_map comp_def)
    also have "filter (\<lambda>q. at_distance dist3d info sid i1 k (fst q)) ?srt
                 = filter (\<lambda>q. snd q = Some k) ?srt"
      by (rule filter_cong[OF refl]) (simp only: sort_by_distance_set q)
    also have "\<dots> = filter (\<lambda>q. snd q = Some k) ?ds"
      by (rule sort_by_distance_stable[OF nn])
    also have "\<dots> = filter (\<lambda>q. at_distance dist3d info sid i1 k (fst q)) ?ds"
      by (rule filter_cong[OF refl]) (simp only: q)
    also have "map fst \<dots> = filter (at_distance dist3d info sid i1 k) (map fst ?ds)"
      by (simp only: filter_map comp_def)
    also have "map fst ?ds = map fst ?oth" by (simp only: map_map comp_def fst_conv)
    also have "filter (at_distance dist3d info sid i1 k) (map fst ?oth)
                 = filter (at_distance dist3d info sid i1 k) (map fst info)"
    proof -
      have "filter (at_distance dist3d info sid i1 k) (map fst ?oth)
              = map fst (filter (\<lambda>p. fst p \<noteq> sid \<and> at_distance dist3d info sid i1 k (fst p)) info)"
        by (simp only: filter_map comp_def filter_filter)
      also have "filter (\<lambda>p. fst p \<noteq> sid \<and> at_distance dist3d info sid i1 k (fst p)) info
                   = filter (\<lambda>p. at_distance dist3d info sid i1 k (fst p)) info"
        by (rule filter_cong[OF refl]) (auto simp: at_distance_def)
      also have "map fst \<dots> = filter (at_distance dist3d info sid i1 k) (map fst info)"
        by (simp only: filter_map comp_def)
      finally show ?thesis .
    qed
    finally show ?thesis unfolding fl .
  qed
  with nb l show ?thesis by blast
qed

text \<open>
  Claim C9. The claim says that two stations at the same distance appear in station-ID
  order whatever the order of the catalog. The builder sorts by the distance alone, and
  the sort is stable: \<open>Q\<close> and \<open>P\<close> are both 1 km from \<open>S\<close>, and they come out in the
  order in which the catalog lists them.
\<close>

theorem ties_follow_catalog_order_not_station_id:
  "\<forall>nan_rank.
     (\<exists>nb. compute_and_cache_neighbors distance_3d nan_rank
              (fst (load_station_info {''S'', ''Q'', ''P''} tie_catalog)) = Inr nb
          \<and> nbr_get nb ''S'' = [(''Q'', Some 1), (''P'', Some 1)])
     \<and> (\<exists>nb. compute_and_cache_neighbors distance_3d nan_rank
              (fst (load_station_info {''S'', ''Q'', ''P''} tie_catalog_swapped)) = Inr nb
          \<and> nbr_get nb ''S'' = [(''P'', Some 1), (''Q'', Some 1)])
     \<and> ''P'' < ''Q''"
  by (simp add: load_station_info_def tie_catalog_def tie_catalog_swapped_def add_item_def
      builder_eval nbr_get_def)

text \<open>
  Claim C9, amended. Ties are broken by the order of the catalog, not by the station
  identifier. Let no distance computation raise and let no distance from the station
  \<open>sid\<close> be NaN. Then for every distance \<open>k\<close>, the stations whose computed distance
  from \<open>sid\<close> is exactly \<open>k\<close> appear in the list of \<open>sid\<close> in the order in which
  the valid stations first occur in the catalog. The distance is the one computed
  from the coordinates kept in \<^verbatim>\<open>station_info\<close>, before rounding. This holds for every
  distance function \<open>dist3d\<close>, so for the double arithmetic of the code.
\<close>

theorem ties_keep_catalog_order:
  assumes i1: "map_of (fst (load_station_info V meta)) sid = Some i1"
    and r: "\<forall>p \<in> set (fst (load_station_info V meta)). \<forall>q \<in> set (fst (load_station_info V meta)).
              fst q \<noteq> fst p \<longrightarrow> (\<exists>d. dist3d (snd p) (snd q) = Inr d)"
    and n: "\<forall>q \<in> set (fst (load_station_info V meta)). fst q \<noteq> sid \<longrightarrow> dist3d i1 (snd q) \<noteq> Inr None"
  shows "\<exists>nb l. compute_and_cache_neighbors dist3d nan_rank (fst (load_station_info V meta)) = Inr nb
           \<and> map_of nb sid = Some l
           \<and> (\<forall>k. filter (at_distance dist3d (fst (load_station_info V meta)) sid i1 k) (map fst l)
                    = filter (at_distance dist3d (fst (load_station_info V meta)) sid i1 k)
                        (first_seen (map fst (valid_entries V meta))))"
proof -
  have d: "distinct (map fst (fst (load_station_info V meta)))"
    using load_station_info_keys[of V meta] by simp
  have k: "map fst (fst (load_station_info V meta)) = first_seen (map fst (valid_entries V meta))"
    using load_station_info_result[of V meta] by simp
  from ties_in_dict_order[OF d i1 r n, of nan_rank] show ?thesis unfolding k .
qed

theorem ties_keep_catalog_order_witness:
  "map_of (fst (load_station_info {''S'', ''Q'', ''P''} tie_catalog)) ''S''
     = Some \<lparr>lon = Some 0, lat = Some 0, alt = Some 0\<rparr>
   \<and> (\<exists>nb l. compute_and_cache_neighbors distance_3d (\<lambda>ds q. 0)
                 (fst (load_station_info {''S'', ''Q'', ''P''} tie_catalog)) = Inr nb
           \<and> map_of nb ''S'' = Some l
           \<and> (\<forall>k. filter (at_distance distance_3d (fst (load_station_info {''S'', ''Q'', ''P''} tie_catalog))
                              ''S'' \<lparr>lon = Some 0, lat = Some 0, alt = Some 0\<rparr> k) (map fst l)
                    = filter (at_distance distance_3d (fst (load_station_info {''S'', ''Q'', ''P''} tie_catalog))
                              ''S'' \<lparr>lon = Some 0, lat = Some 0, alt = Some 0\<rparr> k)
                        (first_seen (map fst (valid_entries {''S'', ''Q'', ''P''} tie_catalog)))))
   \<and> filter (at_distance distance_3d (fst (load_station_info {''S'', ''Q'', ''P''} tie_catalog))
               ''S'' \<lparr>lon = Some 0, lat = Some 0, alt = Some 0\<rparr> 1)
         (first_seen (map fst (valid_entries {''S'', ''Q'', ''P''} tie_catalog))) = [''Q'', ''P'']"
proof -
  have info: "fst (load_station_info {''S'', ''Q'', ''P''} tie_catalog)
                = [(''S'', \<lparr>lon = Some 0, lat = Some 0, alt = Some 0\<rparr>),
                   (''Q'', \<lparr>lon = Some 0, lat = Some 0, alt = Some 1000\<rparr>),
                   (''P'', \<lparr>lon = Some 0, lat = Some 0, alt = Some 1000\<rparr>)]"
    by (simp add: load_station_info_def tie_catalog_def add_item_def)
  have h1: "map_of (fst (load_station_info {''S'', ''Q'', ''P''} tie_catalog)) ''S''
     = Some \<lparr>lon = Some 0, lat = Some 0, alt = Some 0\<rparr>"
    unfolding info by simp
  have h2: "\<forall>p \<in> set (fst (load_station_info {''S'', ''Q'', ''P''} tie_catalog)).
            \<forall>q \<in> set (fst (load_station_info {''S'', ''Q'', ''P''} tie_catalog)).
              fst q \<noteq> fst p \<longrightarrow> (\<exists>d. distance_3d (snd p) (snd q) = Inr d)"
    using distance_3d_returns by blast
  have h3: "\<forall>q \<in> set (fst (load_station_info {''S'', ''Q'', ''P''} tie_catalog)).
              fst q \<noteq> ''S'' \<longrightarrow> distance_3d \<lparr>lon = Some 0, lat = Some 0, alt = Some 0\<rparr> (snd q) \<noteq> Inr None"
    unfolding info by (simp add: distance_3d_def)
  have t: "filter (at_distance distance_3d (fst (load_station_info {''S'', ''Q'', ''P''} tie_catalog))
               ''S'' \<lparr>lon = Some 0, lat = Some 0, alt = Some 0\<rparr> 1)
         (first_seen (map fst (valid_entries {''S'', ''Q'', ''P''} tie_catalog))) = [''Q'', ''P'']"
    unfolding info
    by (simp add: valid_entries_def tie_catalog_def List.map_filter_simps at_distance_def
        distance_3d_def)
  show ?thesis by (intro conjI h1 ties_keep_catalog_order[OF h1 h2 h3] t)
qed

subsection \<open>The worker on a well-formed slice\<close>

lemma scan_ok:
  assumes "wf_frame grp" "col \<in> set (columns grp)"
  shows "\<exists>avail. scan grp col ns acc = Inr avail"
proof (induction ns arbitrary: acc)
  case Nil
  then show ?case by simp
next
  case (Cons n ns)
  show ?case
  proof (cases "fst n \<in> set (index grp)")
    case False
    with Cons show ?thesis by simp
  next
    case True
    from at_get_wf[OF assms(1) True assms(2)] obtain val where "at_get grp (fst n) col = Inr val"
      by blast
    with True Cons show ?thesis by (simp add: Let_def)
  qed
qed

lemma impute_cell_ok:
  assumes wf: "wf_frame grp" and s: "station \<in> set (index grp)" and c: "col \<in> set (columns grp)"
  shows "\<exists>grp' lg'. impute_cell t proc nbrs (grp, lg) (station, col) = Inr (grp', lg')
           \<and> wf_frame grp' \<and> index grp' = index grp \<and> columns grp' = columns grp"
proof -
  from at_get_wf[OF wf s c] obtain v where v: "at_get grp station col = Inr v" by blast
  show ?thesis
  proof (cases v)
    case (Some x)
    with v wf show ?thesis by (simp add: impute_cell_def)
  next
    case None
    from scan_ok[OF wf c] obtain avail where sc: "scan grp col (nbr_get nbrs station) [] = Inr avail"
      by blast
    show ?thesis
    proof (cases "length avail < MIN_NEIGHBORS")
      case True
      with v None sc wf show ?thesis by (simp add: impute_cell_def)
    next
      case False
      from scan_candidates[OF sc] have "\<forall>a \<in> set avail. \<exists>v. at_get grp (fst a) col = Inr (Some v)"
        by simp
      from at_all_present[OF this] obtain vs where va: "at_all grp col avail = Inr (map Some vs)"
        by blast
      from at_set_wf[OF c] obtain grp' where
        st: "at_set grp station col (idw (map Some vs) (map snd avail)) = Inr grp'" by blast
      have "impute_cell t proc nbrs (grp, lg) (station, col) = Inr (grp', lg)"
        using v None sc False va st by (simp add: impute_cell_def)
      with at_set_shape[OF st] wf show ?thesis by simp
    qed
  qed
qed

lemma run_cells_ok:
  assumes "wf_frame grp" "set cells \<subseteq> set (index grp) \<times> set (columns grp)"
  shows "\<exists>grp' lg'. run_cells t proc nbrs (grp, lg) cells = Inr (grp', lg')
           \<and> wf_frame grp' \<and> index grp' = index grp \<and> columns grp' = columns grp"
  using assms
proof (induction cells arbitrary: grp lg)
  case Nil
  then show ?case by simp
next
  case (Cons cell cells)
  obtain station col where cell: "cell = (station, col)" by (cases cell)
  with Cons.prems have "station \<in> set (index grp)" "col \<in> set (columns grp)" by auto
  from impute_cell_ok[OF Cons.prems(1) this, of t "proc" nbrs lg]
  obtain g1 l1 where 1: "impute_cell t proc nbrs (grp, lg) (station, col) = Inr (g1, l1)"
    "wf_frame g1" "index g1 = index grp" "columns g1 = columns grp" by blast
  with Cons.prems have "set cells \<subseteq> set (index g1) \<times> set (columns g1)" by auto
  from Cons.IH[OF 1(2) this, of l1] obtain g2 l2 where
    2: "run_cells t proc nbrs (g1, l1) cells = Inr (g2, l2)"
    "wf_frame g2" "index g2 = index g1" "columns g2 = columns g1" by blast
  with 1 cell show ?case by simp
qed

lemma impute_slice_ok:
  assumes "wf_frame grp"
  shows "\<exists>grp' lg. impute_slice t proc grp nbrs = Inr (grp', lg)
           \<and> wf_frame grp' \<and> index grp' = index grp \<and> columns grp' = columns grp"
proof -
  have "set (cells_of grp) \<subseteq> set (index grp) \<times> set (columns grp)"
    by (auto simp: cells_of_def)
  from run_cells_ok[OF assms this] show ?thesis by (simp add: impute_slice_def)
qed

subsection \<open>The controller and the result assembler\<close>

lemma concat_assign_keys:
  "list_all2 (\<lambda>g r. index r = index (snd g)) groups results \<Longrightarrow>
   map (\<lambda>row. (fst row, Some (snd (snd row))))
       (concat (map (\<lambda>gr. assign_DataTime (fst (fst gr)) (snd gr)) (zip groups results)))
   = concat (map (\<lambda>g. map (\<lambda>s. (s, Some (fst g))) (index (snd g))) groups)"
proof (induction groups results rule: list_all2_induct)
  case Nil
  then show ?case by simp
next
  case (Cons g groups r results)
  have "map (\<lambda>row. (fst row, Some (snd (snd row)))) (assign_DataTime (fst g) r)
          = map (\<lambda>s. (s, Some (fst g))) (index r)"
    by (simp add: assign_DataTime_def index_def comp_def)
  with Cons show ?case by simp
qed

lemma merge_row_single:
  "length (filter (\<lambda>m. fst m = fst row) station_meta) \<le> 1 \<Longrightarrow>
   map out_key (merge_row station_meta row) = [(fst row, Some (snd (snd row)))]"
  by (cases "filter (\<lambda>m. fst m = fst row) station_meta")
     (auto simp: merge_row_def out_key_def)

lemma merge_left_keys:
  assumes "station_meta \<noteq> []"
    and "\<forall>row \<in> set imputed. length (filter (\<lambda>m. fst m = fst row) station_meta) \<le> 1"
  shows "\<exists>out. merge_left imputed station_meta = Inr out
           \<and> map out_key out = map (\<lambda>row. (fst row, Some (snd (snd row)))) imputed"
proof -
  have "map out_key (concat (map (merge_row station_meta) imputed))
          = map (\<lambda>row. (fst row, Some (snd (snd row)))) imputed"
    using assms(2) by (induction imputed) (auto simp: merge_row_single)
  with assms(1) show ?thesis by (simp add: merge_left_def)
qed

lemma mset_groups:
  "distinct ts \<Longrightarrow>
   mset (concat (map (\<lambda>t. filter (\<lambda>r. k r = Some t) recs) ts))
     = mset (filter (\<lambda>r. k r \<in> Some ` set ts) recs)"
proof (induction ts)
  case Nil
  then show ?case by simp
next
  case (Cons t ts)
  have "mset (filter (\<lambda>r. k r \<in> Some ` set (t # ts)) recs)
          = mset (filter (\<lambda>r. k r = Some t) recs) + mset (filter (\<lambda>r. k r \<in> Some ` set ts) recs)"
    using Cons.prems by (induction recs) auto
  with Cons show ?case by simp
qed

lemma set_map_filter: "set (List.map_filter k recs) = {t. Some t \<in> k ` set recs}"
proof (induction recs)
  case Nil
  then show ?case by (simp add: List.map_filter_simps)
next
  case (Cons r recs)
  then show ?case by (cases "k r") (auto simp: List.map_filter_simps)
qed

lemma mset_groupby:
  "mset (concat (map snd (groupby_DataTime recs))) = mset (filter (\<lambda>r. fst (snd r) \<noteq> None) recs)"
proof -
  let ?k = "\<lambda>r::flat_row. fst (snd r)"
  let ?ts = "sort (remdups (List.map_filter ?k recs))"
  have d: "distinct ?ts" by simp
  have ks: "set ?ts = {t. Some t \<in> ?k ` set recs}" by (simp add: set_map_filter)
  have "\<And>r. r \<in> set recs \<Longrightarrow> (?k r \<in> Some ` set ?ts) = (?k r \<noteq> None)"
    unfolding ks by force
  then have feq: "filter (\<lambda>r. ?k r \<in> Some ` set ?ts) recs = filter (\<lambda>r. ?k r \<noteq> None) recs"
    by (intro filter_cong) auto
  have a: "mset (concat (map (\<lambda>t. filter (\<lambda>r. ?k r = Some t) recs) ?ts))
             = mset (filter (\<lambda>r. ?k r \<in> Some ` set ?ts) recs)"
    by (rule mset_groups[OF d])
  have b: "concat (map snd (groupby_DataTime recs))
             = concat (map (\<lambda>t. filter (\<lambda>r. ?k r = Some t) recs) ?ts)"
    by (simp add: groupby_DataTime_def comp_def)
  show ?thesis unfolding b a feq ..
qed

lemma group_rows:
  assumes "(t, g) \<in> set (groupby_DataTime recs)"
  shows "g = filter (\<lambda>r. fst (snd r) = Some t) recs"
  using assms by (auto simp: groupby_DataTime_def)

lemma group_keys:
  assumes "(t, g) \<in> set (groupby_DataTime recs)"
  shows "map (\<lambda>s. (s, Some t)) (map fst g) = map flat_key g"
  unfolding group_rows[OF assms] by (induction recs) (auto simp: flat_key_def)

lemma group_wf:
  assumes g: "(t, g) \<in> set (groupby_DataTime recs)"
    and keys: "distinct (map flat_key recs)"
    and shape: "\<forall>r \<in> set recs. length (snd (snd r)) = length cols"
  shows "wf_frame (slice_of cols g)"
proof -
  have "distinct (map flat_key g)"
    unfolding group_rows[OF g] using keys by (rule distinct_map_filter)
  then have "distinct (map (\<lambda>s. (s, Some t)) (map fst g))" by (simp only: group_keys[OF g])
  then have "distinct (map fst g)"
    using distinct_map[of "\<lambda>s. (s, Some t)" "map fst g"] by blast
  moreover have "set g \<subseteq> set recs" unfolding group_rows[OF g] by auto
  ultimately show ?thesis using shape
    by (auto simp: wf_frame_def slice_of_def index_def comp_def)
qed

lemma slices_keys:
  "concat (map (\<lambda>g. map (\<lambda>s. (s, Some (fst g))) (index (snd g))) (slices_of df0))
     = map flat_key (concat (map snd (groupby_DataTime (records df0))))"
proof -
  have "\<And>tg. tg \<in> set (groupby_DataTime (records df0)) \<Longrightarrow>
          map (\<lambda>s. (s, Some (fst tg))) (index (slice_of (feature_cols df0) (snd tg)))
            = map flat_key (snd tg)"
  proof -
    fix tg assume "tg \<in> set (groupby_DataTime (records df0))"
    then have "(fst tg, snd tg) \<in> set (groupby_DataTime (records df0))" by simp
    from group_keys[OF this] show "map (\<lambda>s. (s, Some (fst tg))) (index (slice_of (feature_cols df0) (snd tg)))
            = map flat_key (snd tg)"
      by (simp add: slice_of_def index_def comp_def)
  qed
  then have "map (\<lambda>g. map (\<lambda>s. (s, Some (fst g))) (index (snd g))) (slices_of df0)
        = map (\<lambda>tg. map flat_key (snd tg)) (groupby_DataTime (records df0))"
    by (simp add: slices_of_def comp_def)
  then show ?thesis by (simp add: map_concat comp_def)
qed

lemmas main_eval = main_from_def main_impute_def slices_of_def groupby_DataTime_def slice_of_def
  run_pool_def worker_result_def assemble_def assign_DataTime_def merge_left_def merge_row_def
  load_station_info_def add_item_def compute_and_cache_neighbors_def neighbors_entry_def
  dists_of_def sort_by_distance_def List.map_filter_def single_worker_def

text \<open>
  Claim C6. The claim says that the final table has every (StationID, DataTime) pair of
  the flattened table exactly once, also with a null timestamp or several metadata
  entries for a station. A row without DataTime is in no group and is dropped: two
  pairs go in and one row comes out. A station listed twice in the catalog has two rows
  in \<^verbatim>\<open>station_meta_df\<close>, and the left merge doubles each of its rows: one pair goes in and
  two rows come out.
\<close>

theorem rows_dropped_and_duplicated:
  "\<forall>nan_rank.
   main_from distance_3d nan_rank single_worker {''A''} null_time_table one_catalog
     = Inr [(''A'', [Some 20], ''2024-05-01T10:00:00'', Some 121, Some 25, Some 10)]
   \<and> map flat_key (records null_time_table)
     = [(''A'', Some ''2024-05-01T10:00:00''), (''A'', None)]
   \<and> main_from distance_3d nan_rank single_worker {''A''} one_row_table twice_catalog
     = Inr [(''A'', [Some 20], ''2024-05-01T10:00:00'', Some 121, Some 25, Some 10),
            (''A'', [Some 20], ''2024-05-01T10:00:00'', Some 121, Some 25, Some 12)]
   \<and> map flat_key (records one_row_table) = [(''A'', Some ''2024-05-01T10:00:00'')]"
proof (rule allI)
  fix nan_rank :: nan_order
  have a: "main_from distance_3d nan_rank single_worker {''A''} null_time_table one_catalog
     = Inr [(''A'', [Some 20], ''2024-05-01T10:00:00'', Some 121, Some 25, Some 10)]"
    by (simp add: null_time_table_def one_catalog_def main_eval worker_eval)
  have b: "map flat_key (records null_time_table)
     = [(''A'', Some ''2024-05-01T10:00:00''), (''A'', None)]"
    by (simp add: null_time_table_def flat_key_def)
  have c: "main_from distance_3d nan_rank single_worker {''A''} one_row_table twice_catalog
     = Inr [(''A'', [Some 20], ''2024-05-01T10:00:00'', Some 121, Some 25, Some 10),
            (''A'', [Some 20], ''2024-05-01T10:00:00'', Some 121, Some 25, Some 12)]"
    by (simp add: one_row_table_def twice_catalog_def main_eval worker_eval)
  have d: "map flat_key (records one_row_table) = [(''A'', Some ''2024-05-01T10:00:00'')]"
    by (simp add: one_row_table_def flat_key_def)
  from a b c d show "main_from distance_3d nan_rank single_worker {''A''} null_time_table one_catalog
     = Inr [(''A'', [Some 20], ''2024-05-01T10:00:00'', Some 121, Some 25, Some 10)]
   \<and> map flat_key (records null_time_table)
     = [(''A'', Some ''2024-05-01T10:00:00''), (''A'', None)]
   \<and> main_from distance_3d nan_rank single_worker {''A''} one_row_table twice_catalog
     = Inr [(''A'', [Some 20], ''2024-05-01T10:00:00'', Some 121, Some 25, Some 10),
            (''A'', [Some 20], ''2024-05-01T10:00:00'', Some 121, Some 25, Some 12)]
   \<and> map flat_key (records one_row_table) = [(''A'', Some ''2024-05-01T10:00:00'')]"
    by blast
qed

text \<open>
  Claim C6, amended. When the flattened table is not empty, every row has a DataTime and
  one value per feature column, no (StationID, DataTime) pair occurs twice, and the
  metadata table is not empty and has at most one row for each station of the table,
  then the run returns a final table that holds every pair of the flattened table
  exactly once: the pairs are the same as a multiset, no pair repeats, and the row
  counts agree.
\<close>

theorem assembled_rows_match_flattened_rows:
  assumes ne: "records df0 \<noteq> []"
    and times: "\<forall>r \<in> set (records df0). fst (snd r) \<noteq> None"
    and keys: "distinct (map flat_key (records df0))"
    and shape: "\<forall>r \<in> set (records df0). length (snd (snd r)) = length (feature_cols df0)"
    and meta1: "station_meta \<noteq> []"
    and meta2: "\<forall>r \<in> set (records df0). length (filter (\<lambda>m. fst m = fst r) station_meta) \<le> 1"
  shows "\<exists>out. main_impute proc_of df0 station_meta neighbors = Inr out
          \<and> mset (map out_key out) = mset (map flat_key (records df0))
          \<and> distinct (map out_key out)
          \<and> length out = length (records df0)"
proof -
  let ?recs = "records df0"
  let ?sl = "slices_of df0"
  have ok: "\<forall>g \<in> set ?sl. \<exists>r. worker_result proc_of neighbors g = Inr r \<and> index r = index (snd g)"
  proof
    fix g assume "g \<in> set ?sl"
    then obtain t rows where tg: "(t, rows) \<in> set (groupby_DataTime ?recs)"
      and g: "g = (t, slice_of (feature_cols df0) rows)"
      by (auto simp: slices_of_def)
    from group_wf[OF tg keys shape] have "wf_frame (snd g)" by (simp add: g)
    from impute_slice_ok[OF this, of "fst g" "proc_of (fst g)" neighbors]
    show "\<exists>r. worker_result proc_of neighbors g = Inr r \<and> index r = index (snd g)"
      by (auto simp: worker_result_def)
  qed
  from collect_results_all2[of ?sl "worker_result proc_of neighbors" "\<lambda>g r. index r = index (snd g)", OF ok]
  obtain rs where rs: "run_pool proc_of neighbors ?sl = Inr rs"
    and all2: "list_all2 (\<lambda>g r. index r = index (snd g)) ?sl rs"
    by (auto simp: run_pool_def)
  let ?imp = "concat (map (\<lambda>gr. assign_DataTime (fst (fst gr)) (snd gr)) (zip ?sl rs))"
  have nonnull: "filter (\<lambda>r. fst (snd r) \<noteq> None) ?recs = ?recs"
    using times by (simp add: filter_id_conv)
  have ms: "mset (concat (map snd (groupby_DataTime ?recs))) = mset ?recs"
    by (simp only: mset_groupby nonnull)
  have ik: "map (\<lambda>row. (fst row, Some (snd (snd row)))) ?imp
              = map flat_key (concat (map snd (groupby_DataTime ?recs)))"
    using concat_assign_keys[OF all2] slices_keys[of df0] by simp
  have mk: "mset (map (\<lambda>row. (fst row, Some (snd (snd row)))) ?imp) = mset (map flat_key ?recs)"
    unfolding ik using ms by (metis mset_map)
  have "?sl \<noteq> []"
  proof
    assume "?sl = []"
    then have "concat (map snd (groupby_DataTime ?recs)) = []" by (simp add: slices_of_def)
    with ms ne show False by simp
  qed
  with all2 have rne: "rs \<noteq> []" by (auto dest: list_all2_lengthD)
  have m2: "\<forall>row \<in> set ?imp. length (filter (\<lambda>m. fst m = fst row) station_meta) \<le> 1"
  proof
    fix row assume "row \<in> set ?imp"
    then have "(fst row, Some (snd (snd row))) \<in> set (map (\<lambda>row. (fst row, Some (snd (snd row)))) ?imp)"
      by force
    then have "(fst row, Some (snd (snd row))) \<in># mset (map flat_key ?recs)"
      unfolding mk[symmetric] by simp
    then obtain r where "r \<in> set ?recs" "fst r = fst row" by (auto simp: flat_key_def)
    with meta2 show "length (filter (\<lambda>m. fst m = fst row) station_meta) \<le> 1" by metis
  qed
  from merge_left_keys[OF meta1 m2] obtain out where
    out: "merge_left ?imp station_meta = Inr out"
    and ok: "map out_key out = map (\<lambda>row. (fst row, Some (snd (snd row)))) ?imp" by blast
  have res: "main_impute proc_of df0 station_meta neighbors = Inr out"
    using ne rs rne out by (simp add: main_impute_def assemble_def)
  have m: "mset (map out_key out) = mset (map flat_key ?recs)" using ok mk by simp
  have d: "distinct (map out_key out)" using m keys by (metis mset_eq_imp_distinct_iff)
  have "length (map out_key out) = length (map flat_key ?recs)" using m by (rule mset_eq_length)
  then have l: "length out = length ?recs" by simp
  from res m d l show ?thesis by blast
qed

theorem assembled_rows_match_flattened_rows_witness:
  "\<exists>out. main_impute single_worker clean_table clean_meta clean_neighbors = Inr out
          \<and> mset (map out_key out) = mset (map flat_key (records clean_table))
          \<and> distinct (map out_key out)
          \<and> length out = length (records clean_table)"
proof -
  have h1: "records clean_table \<noteq> []" by (simp add: clean_table_def)
  have h2: "\<forall>r \<in> set (records clean_table). fst (snd r) \<noteq> None" by (simp add: clean_table_def)
  have h3: "distinct (map flat_key (records clean_table))"
    by (simp add: clean_table_def flat_key_def)
  have h4: "\<forall>r \<in> set (records clean_table). length (snd (snd r)) = length (feature_cols clean_table)"
    by (simp add: clean_table_def)
  have h5: "clean_meta \<noteq> []" by (simp add: clean_meta_def)
  have h6: "\<forall>r \<in> set (records clean_table). length (filter (\<lambda>m. fst m = fst r) clean_meta) \<le> 1"
    by (simp add: clean_table_def clean_meta_def)
  from assembled_rows_match_flattened_rows[OF h1 h2 h3 h4 h5 h6] show ?thesis .
qed

text \<open>
  Claim C2. The claim says that a worker failure on one slice is collected, that the
  other slices' outputs are kept and that a failure summary is reported at the end. The
  controller is \<^verbatim>\<open>list(exe.map(impute_slice, groups))\<close> with no exception handler. In the
  table below the slice of 10:00 is processed and returned; the slice of 11:00 holds
  station \<open>A\<close> twice and its worker raises ValueError; the run ends with that exception
  and returns no table.
\<close>

theorem failed_slice_discards_completed_slices:
  "\<forall>nan_rank.
   slices_of repeated_row_table =
     [(''2024-05-01T10:00:00'', \<lparr>columns = [''T''], rows = [(''A'', [Some 20])]\<rparr>),
      (''2024-05-01T11:00:00'', \<lparr>columns = [''T''], rows = [(''A'', [Some 21]), (''A'', [Some 21])]\<rparr>)]
   \<and> compute_and_cache_neighbors distance_3d nan_rank (fst (load_station_info {''A''} one_catalog))
       = Inr [(''A'', [])]
   \<and> worker_result single_worker [(''A'', [])]
        (''2024-05-01T10:00:00'', \<lparr>columns = [''T''], rows = [(''A'', [Some 20])]\<rparr>)
       = Inr \<lparr>columns = [''T''], rows = [(''A'', [Some 20])]\<rparr>
   \<and> worker_result single_worker [(''A'', [])]
        (''2024-05-01T11:00:00'', \<lparr>columns = [''T''], rows = [(''A'', [Some 21]), (''A'', [Some 21])]\<rparr>)
       = Inl ValueError
   \<and> main_from distance_3d nan_rank single_worker {''A''} repeated_row_table one_catalog = Inl ValueError"
proof (rule allI)
  fix nan_rank :: nan_order
  have a: "slices_of repeated_row_table =
     [(''2024-05-01T10:00:00'', \<lparr>columns = [''T''], rows = [(''A'', [Some 20])]\<rparr>),
      (''2024-05-01T11:00:00'', \<lparr>columns = [''T''], rows = [(''A'', [Some 21]), (''A'', [Some 21])]\<rparr>)]"
    by (simp add: repeated_row_table_def main_eval)
  have n: "compute_and_cache_neighbors distance_3d nan_rank (fst (load_station_info {''A''} one_catalog))
       = Inr [(''A'', [])]"
    by (simp add: one_catalog_def main_eval)
  have b: "worker_result single_worker [(''A'', [])]
        (''2024-05-01T10:00:00'', \<lparr>columns = [''T''], rows = [(''A'', [Some 20])]\<rparr>)
       = Inr \<lparr>columns = [''T''], rows = [(''A'', [Some 20])]\<rparr>"
    by (simp add: main_eval worker_eval)
  have c: "worker_result single_worker [(''A'', [])]
        (''2024-05-01T11:00:00'', \<lparr>columns = [''T''], rows = [(''A'', [Some 21]), (''A'', [Some 21])]\<rparr>)
       = Inl ValueError"
    by (simp add: main_eval worker_eval)
  have d: "main_from distance_3d nan_rank single_worker {''A''} repeated_row_table one_catalog = Inl ValueError"
    by (simp add: repeated_row_table_def one_catalog_def main_eval worker_eval)
  from a n b c d show "slices_of repeated_row_table =
     [(''2024-05-01T10:00:00'', \<lparr>columns = [''T''], rows = [(''A'', [Some 20])]\<rparr>),
      (''2024-05-01T11:00:00'', \<lparr>columns = [''T''], rows = [(''A'', [Some 21]), (''A'', [Some 21])]\<rparr>)]
   \<and> compute_and_cache_neighbors distance_3d nan_rank (fst (load_station_info {''A''} one_catalog))
       = Inr [(''A'', [])]
   \<and> worker_result single_worker [(''A'', [])]
        (''2024-05-01T10:00:00'', \<lparr>columns = [''T''], rows = [(''A'', [Some 20])]\<rparr>)
       = Inr \<lparr>columns = [''T''], rows = [(''A'', [Some 20])]\<rparr>
   \<and> worker_result single_worker [(''A'', [])]
        (''2024-05-01T11:00:00'', \<lparr>columns = [''T''], rows = [(''A'', [Some 21]), (''A'', [Some 21])]\<rparr>)
       = Inl ValueError
   \<and> main_from distance_3d nan_rank single_worker {''A''} repeated_row_table one_catalog = Inl ValueError"
    by blast
qed

text \<open>
  Claim C2, amended. When the worker of some slice raises and the workers of all the
  slices before it (in slice order) return, collecting the results raises that
  exception, and the run ends with it: no table is assembled, whatever the slices
  after it did and whatever the slices before it returned.
\<close>

theorem first_worker_failure_ends_run:
  assumes ne: "records df0 \<noteq> []"
    and split: "slices_of df0 = gs1 @ g # gs2"
    and before: "\<forall>h \<in> set gs1. \<exists>r. worker_result proc_of neighbors h = Inr r"
    and fails: "worker_result proc_of neighbors g = Inl e"
  shows "run_pool proc_of neighbors (slices_of df0) = Inl e
         \<and> main_impute proc_of df0 station_meta neighbors = Inl e"
proof -
  let ?f = "worker_result proc_of neighbors"
  from before have "\<exists>rs. map ?f gs1 = map Inr rs"
  proof (induction gs1)
    case Nil
    then show ?case by simp
  next
    case (Cons h gs1)
    then obtain r rs where "?f h = Inr r" "map ?f gs1 = map Inr rs" by auto
    then have "map ?f (h # gs1) = map Inr (r # rs)" by simp
    then show ?case by blast
  qed
  then obtain rs where rs: "map ?f gs1 = map Inr rs" by blast
  have "run_pool proc_of neighbors (slices_of df0) = collect_results (map Inr rs @ Inl e # map ?f gs2)"
    by (simp add: run_pool_def split rs fails)
  then have r: "run_pool proc_of neighbors (slices_of df0) = Inl e"
    by (simp only: collect_results_first_error)
  with ne show ?thesis by (simp add: main_impute_def)
qed

theorem first_worker_failure_ends_run_witness:
  "records repeated_row_table \<noteq> []
   \<and> slices_of repeated_row_table =
       [(''2024-05-01T10:00:00'', \<lparr>columns = [''T''], rows = [(''A'', [Some 20])]\<rparr>)]
       @ (''2024-05-01T11:00:00'', \<lparr>columns = [''T''], rows = [(''A'', [Some 21]), (''A'', [Some 21])]\<rparr>)
       # []
   \<and> worker_result single_worker []
        (''2024-05-01T11:00:00'', \<lparr>columns = [''T''], rows = [(''A'', [Some 21]), (''A'', [Some 21])]\<rparr>)
       = Inl ValueError
   \<and> run_pool single_worker [] (slices_of repeated_row_table) = Inl ValueError
   \<and> main_impute single_worker repeated_row_table [(''A'', Some 121, Some 25, Some 10)] [] = Inl ValueError"
proof -
  have h1: "records repeated_row_table \<noteq> []" by (simp add: repeated_row_table_def)
  have h2: "slices_of repeated_row_table =
       [(''2024-05-01T10:00:00'', \<lparr>columns = [''T''], rows = [(''A'', [Some 20])]\<rparr>)]
       @ (''2024-05-01T11:00:00'', \<lparr>columns = [''T''], rows = [(''A'', [Some 21]), (''A'', [Some 21])]\<rparr>)
       # []"
    by (simp add: repeated_row_table_def main_eval)
  have h3: "\<forall>h \<in> set [(''2024-05-01T10:00:00'', \<lparr>columns = [''T''], rows = [(''A'', [Some 20])]\<rparr>)].
              \<exists>r. worker_result single_worker [] h = Inr r"
    by (simp add: main_eval worker_eval)
  have h4: "worker_result single_worker []
        (''2024-05-01T11:00:00'', \<lparr>columns = [''T''], rows = [(''A'', [Some 21]), (''A'', [Some 21])]\<rparr>)
       = Inl ValueError"
    by (simp add: main_eval worker_eval)
  from first_worker_failure_ends_run[OF h1 h2 h3 h4, of "[(''A'', Some 121, Some 25, Some 10)]"] h1 h2 h4
  show ?thesis by blast
qed

subsection \<open>The record flattener\<close>

lemmas flatten_eval = flatten_and_clean_def station_rows_def dir_rows_def named_file_rows_def
  endswith_def file_rows_def top_items_def item_rows_def entry_rows_def fields_def sentinels_def

lemma collect_rows_element_fails:
  "x \<in> set xs \<Longrightarrow> f x = Inl e \<Longrightarrow> \<exists>e'. collect_rows f xs = Inl e'"
  by (induction xs) (auto split: sum.splits)

lemma collect_rows_skip:
  "(\<And>x. P x \<Longrightarrow> f x = Inr []) \<Longrightarrow>
   collect_rows f (filter (\<lambda>x. \<not> P x) xs) = collect_rows f xs"
  by (induction xs) (auto split: sum.splits)

lemma file_rows_unrecognised: "\<not> recognised data \<Longrightarrow> file_rows sid (Parsed data) = Inr []"
  by (cases data) (auto simp: recognised_def file_rows_def top_items_def split: option.splits)

lemma named_file_rows_skipped: "skipped_shape nf \<Longrightarrow> named_file_rows sid nf = Inr []"
  by (auto simp: skipped_shape_def named_file_rows_def file_rows_unrecognised split: raw_file.splits)

lemma dir_rows_drop_skipped:
  "dir_rows sid (filter (\<lambda>nf. \<not> skipped_shape nf) files) = dir_rows sid files"
proof -
  have "sort_key fst (filter (\<lambda>nf. \<not> skipped_shape nf) files)
          = filter (\<lambda>nf. \<not> skipped_shape nf) (sort_key fst files)"
    by (simp add: filter_sort)
  then show ?thesis
    unfolding dir_rows_def
    by (simp add: collect_rows_skip[where P = skipped_shape, OF named_file_rows_skipped])
qed

lemma map_of_drop_skipped:
  "map_of (drop_skipped his) sid = map_option (filter (\<lambda>nf. \<not> skipped_shape nf)) (map_of his sid)"
  by (induction his) (auto simp: drop_skipped_def)

lemma station_rows_drop_skipped: "station_rows (drop_skipped his) sid = station_rows his sid"
  by (cases "map_of his sid") (simp_all add: station_rows_def map_of_drop_skipped dir_rows_drop_skipped)

text \<open>
  Claim C8. The claim says that a malformed file is skipped with a warning and is never
  fatal. \<^verbatim>\<open>flatten_and_clean\<close> calls \<^verbatim>\<open>json.load\<close> with no exception handler: with an
  unparseable file for 1 May next to a good file for 2 May, the run ends with the
  decoding error and returns no table, while the good file alone gives its row.
\<close>

theorem unparseable_file_ends_flattening:
  "flatten_and_clean {''A''} truncated_root = Inl JSONDecodeError
   \<and> (case flatten_and_clean {''A''} good_root of
        Inl e \<Rightarrow> []
      | Inr rs \<Rightarrow> map (\<lambda>r. (fst r, fst (snd r))) rs) = [(''A'', JStr ''2024-05-02T01:00:00'')]"
proof -
  have a: "flatten_and_clean {''A''} truncated_root = Inl JSONDecodeError"
    by (simp add: truncated_root_def flatten_eval)
  have b: "(case flatten_and_clean {''A''} good_root of
        Inl e \<Rightarrow> []
      | Inr rs \<Rightarrow> map (\<lambda>r. (fst r, fst (snd r))) rs) = [(''A'', JStr ''2024-05-02T01:00:00'')]"
    by (simp add: good_root_def good_day_def flatten_eval)
  from a b show ?thesis by blast
qed

text \<open>
  Claim C8, amended. A file that parses to a document of none of the three shapes
  contributes no rows and does not stop the run: the flattener returns what it returns
  when all such files are removed from the directories (no warning is part of the
  result). An unparseable \<^verbatim>\<open>.json\<close> file in the directory of a valid station ends the
  run with an exception.
\<close>

theorem unrecognised_skipped_unparseable_fatal:
  "flatten_and_clean valid_stations his = flatten_and_clean valid_stations (drop_skipped his)
   \<and> (finite valid_stations \<and> sid \<in> valid_stations \<and> map_of his sid = Some files
        \<and> (fname, Unparseable) \<in> set files \<and> endswith fname ''.json''
      \<longrightarrow> (\<exists>e. flatten_and_clean valid_stations his = Inl e))"
proof
  have "station_rows (drop_skipped his) = station_rows his"
    by (rule ext) (rule station_rows_drop_skipped)
  then show "flatten_and_clean valid_stations his = flatten_and_clean valid_stations (drop_skipped his)"
    by (simp add: flatten_and_clean_def)
next
  show "finite valid_stations \<and> sid \<in> valid_stations \<and> map_of his sid = Some files
        \<and> (fname, Unparseable) \<in> set files \<and> endswith fname ''.json''
      \<longrightarrow> (\<exists>e. flatten_and_clean valid_stations his = Inl e)"
  proof
    assume a: "finite valid_stations \<and> sid \<in> valid_stations \<and> map_of his sid = Some files
        \<and> (fname, Unparseable) \<in> set files \<and> endswith fname ''.json''"
    then have "named_file_rows sid (fname, Unparseable) = Inl JSONDecodeError"
      by (simp add: named_file_rows_def file_rows_def)
    moreover from a have "(fname, Unparseable) \<in> set (sort_key fst files)" by simp
    ultimately obtain e where "dir_rows sid files = Inl e"
      unfolding dir_rows_def using collect_rows_element_fails by metis
    with a have "station_rows his sid = Inl e" by (simp add: station_rows_def)
    moreover from a have "sid \<in> set (sorted_list_of_set valid_stations)" by simp
    ultimately show "\<exists>e. flatten_and_clean valid_stations his = Inl e"
      unfolding flatten_and_clean_def using collect_rows_element_fails by metis
  qed
qed

theorem unrecognised_skipped_unparseable_fatal_witness:
  "flatten_and_clean {''A''} odd_root = flatten_and_clean {''A''} (drop_skipped odd_root)
   \<and> drop_skipped odd_root = good_root
   \<and> (\<exists>e. flatten_and_clean {''A''} truncated_root = Inl e)"
proof -
  have h: "finite {''A''} \<and> ''A'' \<in> {''A''}
        \<and> map_of truncated_root ''A''
            = Some [(''2024-05-01.json'', Unparseable), (''2024-05-02.json'', Parsed good_day)]
        \<and> (''2024-05-01.json'', Unparseable)
            \<in> set [(''2024-05-01.json'', Unparseable), (''2024-05-02.json'', Parsed good_day)]
        \<and> endswith ''2024-05-01.json'' ''.json''"
    by (simp add: truncated_root_def endswith_def)
  have d: "drop_skipped odd_root = good_root"
    by (simp add: drop_skipped_def odd_root_def good_root_def skipped_shape_def recognised_def
        good_day_def odd_day_def)
  from unrecognised_skipped_unparseable_fatal[of "{''A''}" odd_root]
    unrecognised_skipped_unparseable_fatal[of "{''A''}" truncated_root "''A''"
      "[(''2024-05-01.json'', Unparseable), (''2024-05-02.json'', Parsed good_day)]" "''2024-05-01.json''"]
    h d show ?thesis by blast
qed

end
